theory Spec2Isabelle
  imports Complex_Main
begin

section \<open>Errors\<close>

text \<open>
  The exceptions of \<^verbatim>\<open>bandwidth.py\<close> that the model keeps as values.
  \<open>AttributeError\<close> is what \<^verbatim>\<open>re.search(...).group(1)\<close> raises when the search
  returned \<^verbatim>\<open>None\<close>; \<open>SystemExit\<close> is \<^verbatim>\<open>sys.exit()\<close>.
\<close>

datatype error = AttributeError | SystemExit

section \<open>Score extraction\<close>

subsection \<open>The three regular expressions\<close>

text \<open>
  Tool and device output is a \<open>string\<close> whose characters stand for the code points below
  256.  \<^verbatim>\<open>\s\<close> is Python's Unicode whitespace restricted to that range, \<^verbatim>\<open>\d\<close> the
  decimal digits (there is no other decimal digit below 256).
\<close>

definition is_space :: "char \<Rightarrow> bool" where
  "is_space c = (of_char c \<in> {9, 10, 11, 12, 13, 28, 29, 30, 31, 32, 133, 160 :: nat})"

definition is_digit :: "char \<Rightarrow> bool" where
  "is_digit c = (48 \<le> (of_char c :: nat) \<and> (of_char c :: nat) \<le> 57)"

text \<open>\<^verbatim>\<open>int(s)\<close> on a string of decimal digits.\<close>

definition int_of_digits :: "string \<Rightarrow> int" where
  "int_of_digits ds = foldl (\<lambda>acc c. 10 * acc + (int (of_char c) - 48)) 0 ds"

text \<open>Matching a literal at the start of a text: the rest of the text on success.\<close>

fun strip_prefix :: "string \<Rightarrow> string \<Rightarrow> string option" where
  "strip_prefix [] s = Some s"
| "strip_prefix (p # ps) [] = None"
| "strip_prefix (p # ps) (c # cs) = (if p = c then strip_prefix ps cs else None)"

text \<open>
  \<^verbatim>\<open>(\d+)\<close> at the start of a text: the greedy run of digits and the rest.  The element
  that follows the group in all three patterns is not a digit, so no shorter run can match
  and backtracking never succeeds where the greedy run fails.
\<close>

definition digits1 :: "string \<Rightarrow> (string \<times> string) option" where
  "digits1 s =
     (let ds = takeWhile is_digit s
      in if ds = [] then None else Some (ds, dropWhile is_digit s))"

text \<open>\<^verbatim>\<open>HighDetail:[\s](\d+)%\<close> and \<^verbatim>\<open>LowDetail:[\s](\d+)%\<close>, anchored at the start of the text;
  the result is group 1.\<close>

definition match_detail_at :: "string \<Rightarrow> string \<Rightarrow> string option" where
  "match_detail_at key s =
     (case strip_prefix key s of
        None \<Rightarrow> None
      | Some [] \<Rightarrow> None
      | Some (c # r) \<Rightarrow>
          if is_space c then
            (case digits1 r of
               None \<Rightarrow> None
             | Some (ds, r') \<Rightarrow>
                 (case strip_prefix ''%'' r' of None \<Rightarrow> None | Some _ \<Rightarrow> Some ds))
          else None)"

text \<open>\<^verbatim>\<open>30s:\s(\d+)\spercent\<close>, anchored at the start of the text.\<close>

definition match_motion_at :: "string \<Rightarrow> string option" where
  "match_motion_at s =
     (case strip_prefix ''30s:'' s of
        None \<Rightarrow> None
      | Some [] \<Rightarrow> None
      | Some (c # r) \<Rightarrow>
          if is_space c then
            (case digits1 r of
               None \<Rightarrow> None
             | Some (ds, r') \<Rightarrow>
                 (case r' of
                    [] \<Rightarrow> None
                  | c' # r'' \<Rightarrow>
                      if is_space c' then
                        (case strip_prefix ''percent'' r'' of
                           None \<Rightarrow> None
                         | Some _ \<Rightarrow> Some ds)
                      else None))
          else None)"

text \<open>\<^verbatim>\<open>re.search\<close>: the match at the leftmost position where the pattern matches.\<close>

fun re_search :: "(string \<Rightarrow> 'a option) \<Rightarrow> string \<Rightarrow> 'a option" where
  "re_search m [] = m []"
| "re_search m (c # cs) =
     (case m (c # cs) of Some g \<Rightarrow> Some g | None \<Rightarrow> re_search m cs)"

definition search_high :: "string \<Rightarrow> string option" where
  "search_high s = re_search (match_detail_at ''HighDetail:'') s"

definition search_low :: "string \<Rightarrow> string option" where
  "search_low s = re_search (match_detail_at ''LowDetail:'') s"

definition search_motion :: "string \<Rightarrow> string option" where
  "search_motion s = re_search match_motion_at s"

subsection \<open>\<^verbatim>\<open>Datapath.check_detail\<close>\<close>

text \<open>
  The two score attributes are created by the first assignment, so each is an option.
  The argument of \<open>check_detail\<close> is what running \<^verbatim>\<open>detail "test.png"\<close> gave: \<open>None\<close> when
  the executable is not found (\<^verbatim>\<open>FileNotFoundError\<close>, answered by \<^verbatim>\<open>sys.exit()\<close>),
  otherwise its decoded standard output.
\<close>

record detail_scores =
  high_detail :: "int option"
  low_detail :: "int option"

definition check_detail :: "string option \<Rightarrow> detail_scores \<Rightarrow> error + detail_scores" where
  "check_detail tool st =
     (case tool of
        None \<Rightarrow> Inl SystemExit
      | Some output_str \<Rightarrow>
          (let st1 = (case search_high output_str of
                        Some g \<Rightarrow> st\<lparr>high_detail := Some (int_of_digits g)\<rparr>
                      | None \<Rightarrow> st);
               st2 = (case search_low output_str of
                        Some g \<Rightarrow> st1\<lparr>low_detail := Some (int_of_digits g)\<rparr>
                      | None \<Rightarrow> st1)
           in Inr st2))"

subsection \<open>\<^verbatim>\<open>Datapath.check_motion\<close>\<close>

text \<open>One poll: the answer of the console command \<^verbatim>\<open>ms\<close> turned into a reading.\<close>

definition poll_motion :: "string \<Rightarrow> error + int" where
  "poll_motion daemon_output =
     (case search_motion daemon_output of
        None \<Rightarrow> Inl AttributeError
      | Some g \<Rightarrow> Inr (int_of_digits g))"

text \<open>\<^verbatim>\<open>np.var\<close>: the mean of the squared deviations from the mean.\<close>

definition np_var :: "int list \<Rightarrow> rat" where
  "np_var xs =
     (let n = of_nat (length xs);
          mu = of_int (sum_list xs) / n
      in sum_list (map (\<lambda>x. (of_int x - mu) ^ 2) xs) / n)"

text \<open>\<^verbatim>\<open>xs[-n:]\<close> for a positive \<open>n\<close>.\<close>

definition last_n :: "nat \<Rightarrow> 'a list \<Rightarrow> 'a list" where
  "last_n n xs = drop (length xs - n) xs"

definition sample_range :: nat where
  "sample_range = 10"

text \<open>
  \<^verbatim>\<open>int(mean(xs))\<close>: readings come from \<^verbatim>\<open>\d+\<close>, so they are not negative and
  truncation is the floor of the exact mean.
\<close>

definition int_mean :: "int list \<Rightarrow> int" where
  "int_mean xs = sum_list xs div int (length xs)"

text \<open>
  The polling loop.  The first argument is the sequence of answers the device gives to
  the successive \<^verbatim>\<open>ms\<close> commands, the second is \<^verbatim>\<open>self.motion_list\<close>.  \<open>None\<close> means that
  the loop is still polling when the given answers are used up.  On return the result is
  \<^verbatim>\<open>self.motion_score\<close> together with \<^verbatim>\<open>self.motion_list\<close>.
\<close>

fun check_motion_loop :: "string list \<Rightarrow> int list \<Rightarrow> (error + int \<times> int list) option" where
  "check_motion_loop [] motion_list = None"
| "check_motion_loop (daemon_output # rest) motion_list =
     (case poll_motion daemon_output of
        Inl e \<Rightarrow> Some (Inl e)
      | Inr motion_detec \<Rightarrow>
          (let motion_list' = motion_list @ [motion_detec]
           in if length motion_list' < sample_range then check_motion_loop rest motion_list'
              else if length motion_list' = 20 then Some (Inr (int_mean motion_list', motion_list'))
              else (let data_set = last_n sample_range motion_list'
                    in if np_var data_set = 0 then Some (Inr (last data_set, motion_list'))
                       else check_motion_loop rest motion_list')))"

definition check_motion :: "string list \<Rightarrow> (error + int \<times> int list) option" where
  "check_motion answers = check_motion_loop answers []"

section \<open>Rendering a frame\<close>

text \<open>
  The rasterizer is an external library.  Its contract is modelled at unbounded
  resolution: a surface gives the colour of every point of device space, the current
  path is the set of device points it encloses, \<open>fill\<close> paints the points of the path that
  lie on the surface with the source and clears the path.  The context keeps the inverse
  of the current transformation matrix (device space to user space).
\<close>

type_synonym point = "real \<times> real"

type_synonym colour = "real \<times> real \<times> real \<times> real"

type_synonym image = "point \<Rightarrow> colour"

record cairo_context =
  surf_w :: real
  surf_h :: real
  surface :: image
  cur_path :: "point \<Rightarrow> bool"
  source :: image
  to_user :: "point \<Rightarrow> point"

text \<open>\<^verbatim>\<open>cairo.Context(cairo.ImageSurface(FORMAT_ARGB32, w, h))\<close>: a cleared surface, no path,
  black source, identity matrix.\<close>

definition new_context :: "real \<Rightarrow> real \<Rightarrow> cairo_context" where
  "new_context w h =
     \<lparr>surf_w = w, surf_h = h, surface = (\<lambda>p. (0, 0, 0, 0)), cur_path = (\<lambda>p. False),
      source = (\<lambda>p. (0, 0, 0, 1)), to_user = (\<lambda>p. p)\<rparr>"

definition in_rect :: "real \<Rightarrow> real \<Rightarrow> real \<Rightarrow> real \<Rightarrow> point \<Rightarrow> bool" where
  "in_rect x y w h p =
     (min x (x + w) \<le> fst p \<and> fst p < max x (x + w) \<and>
      min y (y + h) \<le> snd p \<and> snd p < max y (y + h))"

definition on_surface :: "cairo_context \<Rightarrow> point \<Rightarrow> bool" where
  "on_surface ctx p = (0 \<le> fst p \<and> fst p < surf_w ctx \<and> 0 \<le> snd p \<and> snd p < surf_h ctx)"

definition cairo_rectangle :: "real \<Rightarrow> real \<Rightarrow> real \<Rightarrow> real \<Rightarrow> cairo_context \<Rightarrow> cairo_context" where
  "cairo_rectangle x y w h ctx =
     ctx\<lparr>cur_path := (\<lambda>p. cur_path ctx p \<or> in_rect x y w h (to_user ctx p))\<rparr>"

definition set_source_rgb :: "real \<Rightarrow> real \<Rightarrow> real \<Rightarrow> cairo_context \<Rightarrow> cairo_context" where
  "set_source_rgb r g b ctx = ctx\<lparr>source := (\<lambda>p. (r, g, b, 1))\<rparr>"

definition cairo_fill :: "cairo_context \<Rightarrow> cairo_context" where
  "cairo_fill ctx =
     ctx\<lparr>surface := (\<lambda>p. if cur_path ctx p \<and> on_surface ctx p then source ctx p
                         else surface ctx p),
         cur_path := (\<lambda>p. False)\<rparr>"

definition cairo_translate :: "real \<Rightarrow> real \<Rightarrow> cairo_context \<Rightarrow> cairo_context" where
  "cairo_translate tx ty ctx =
     ctx\<lparr>to_user := (\<lambda>p. (fst (to_user ctx p) - tx, snd (to_user ctx p) - ty))\<rparr>"

definition cairo_rotate :: "real \<Rightarrow> cairo_context \<Rightarrow> cairo_context" where
  "cairo_rotate a ctx =
     ctx\<lparr>to_user := (\<lambda>p. (fst (to_user ctx p) * cos a + snd (to_user ctx p) * sin a,
                          snd (to_user ctx p) * cos a - fst (to_user ctx p) * sin a))\<rparr>"

definition cairo_scale :: "real \<Rightarrow> real \<Rightarrow> cairo_context \<Rightarrow> cairo_context" where
  "cairo_scale sx sy ctx =
     ctx\<lparr>to_user := (\<lambda>p. (fst (to_user ctx p) / sx, snd (to_user ctx p) / sy))\<rparr>"

text \<open>A surface as a source with \<^verbatim>\<open>Extend.REPEAT\<close>: the tile of the given edge, repeated.\<close>

definition repeat_surface :: "real \<Rightarrow> image \<Rightarrow> image" where
  "repeat_surface edge tile =
     (\<lambda>p. tile (fst p - edge * of_int \<lfloor>fst p / edge\<rfloor>, snd p - edge * of_int \<lfloor>snd p / edge\<rfloor>))"

definition set_source_surface :: "real \<Rightarrow> image \<Rightarrow> cairo_context \<Rightarrow> cairo_context" where
  "set_source_surface edge tile ctx = ctx\<lparr>source := repeat_surface edge tile\<rparr>"

subsection \<open>Scene parameters\<close>

record rect =
  rect_x :: rat
  rect_y :: rat
  rect_length :: rat
  rect_height :: rat

text \<open>The arguments of one call of \<^verbatim>\<open>make_scene\<close>.\<close>

record scene_args =
  sc_mo_size :: rat
  sc_fineness :: int
  sc_rect1 :: rect
  sc_rect2 :: rect
  sc_name :: string

definition hor_res :: int where
  "hor_res = 3840"

definition ver_res :: int where
  "ver_res = 2160"

text \<open>\<^verbatim>\<open>int(self.hor_res*0.1)\<close>, the width of the rotating rectangle.\<close>

definition mo_size_y :: int where
  "mo_size_y = \<lfloor>of_int hor_res * (1 / 10 :: rat)\<rfloor>"

definition zero_rect :: rect where
  "zero_rect = \<lparr>rect_x = 0, rect_y = 0, rect_length = 0, rect_height = 0\<rparr>"

text \<open>The defaults of \<^verbatim>\<open>make_scene\<close>.\<close>

definition default_scene :: scene_args where
  "default_scene =
     \<lparr>sc_mo_size = 600, sc_fineness = 6, sc_rect1 = zero_rect, sc_rect2 = zero_rect,
      sc_name = ''scene''\<rparr>"

subsection \<open>\<^verbatim>\<open>make_frame\<close>\<close>

text \<open>\<^verbatim>\<open>drawPattern\<close>; the closed polygon it traces is the unit square.\<close>

definition drawPattern :: "cairo_context \<Rightarrow> cairo_context" where
  "drawPattern ctx =
     cairo_fill (set_source_rgb 0 0 0 (cairo_rectangle 0 0 (3 / 4) (3 / 4)
       (cairo_fill (set_source_rgb 1 1 1 (cairo_rectangle 0 0 1 1 ctx)))))"

definition draw_rect :: "rect \<Rightarrow> real \<times> real \<times> real \<Rightarrow> cairo_context \<Rightarrow> cairo_context" where
  "draw_rect rect_info color context =
     cairo_fill
       (set_source_rgb (fst color) (fst (snd color)) (snd (snd color))
         (cairo_rectangle (of_rat (rect_x rect_info)) (of_rat (rect_y rect_info))
            (of_rat (rect_length rect_info)) (of_rat (rect_height rect_info)) context))"

definition color_grey :: "real \<times> real \<times> real" where
  "color_grey = (1 / 2, 1 / 2, 1 / 2)"

definition color_black :: "real \<times> real \<times> real" where
  "color_black = (0, 0, 0)"

text \<open>The background: the frame rectangle filled with the repeated pattern tile.\<close>

definition draw_background :: "scene_args \<Rightarrow> cairo_context" where
  "draw_background a =
     (let fineness = real_of_int (sc_fineness a);
          patternSurf = surface (drawPattern (cairo_scale fineness fineness
                                   (new_context fineness fineness)));
          context = new_context (of_int hor_res) (of_int ver_res)
      in cairo_fill (set_source_surface fineness patternSurf
           (cairo_rectangle 0 0 (of_int hor_res) (of_int ver_res) context)))"

text \<open>The motion object, rotated about its own centre and drawn last.\<close>

definition draw_motion_object :: "scene_args \<Rightarrow> real \<Rightarrow> cairo_context \<Rightarrow> cairo_context" where
  "draw_motion_object a theta context =
     (let mo_ctr_x = real_of_int hor_res / 2;
          mo_ctr_y = real_of_int ver_res / 2;
          mo_x = of_int hor_res / 2 - sc_mo_size a / 2;
          mo_y = of_int ver_res / 2 - of_int mo_size_y / 2;
          theta_rad = theta * pi / 180;
          mo_info = \<lparr>rect_x = mo_x, rect_y = mo_y, rect_length = sc_mo_size a,
                     rect_height = of_int mo_size_y\<rparr>
      in draw_rect mo_info color_black
           (cairo_translate (- mo_ctr_x) (- mo_ctr_y)
             (cairo_rotate theta_rad (cairo_translate mo_ctr_x mo_ctr_y context))))"

text \<open>The image \<^verbatim>\<open>make_frame\<close> writes for the rotation angle \<open>theta\<close> (in degrees).\<close>

definition make_frame :: "scene_args \<Rightarrow> real \<Rightarrow> image" where
  "make_frame a theta =
     surface (draw_motion_object a theta
       (draw_rect (sc_rect2 a) color_grey
         (draw_rect (sc_rect1 a) color_grey (draw_background a))))"

text \<open>The same frame with no auxiliary rectangle drawn: the two \<^verbatim>\<open>draw_rect\<close> calls for
  \<^verbatim>\<open>rect1\<close> and \<^verbatim>\<open>rect2\<close> left out.  Used only to state the round trip.\<close>

definition make_frame_no_aux :: "scene_args \<Rightarrow> real \<Rightarrow> image" where
  "make_frame_no_aux a theta = surface (draw_motion_object a theta (draw_background a))"

section \<open>Assembling and playing a scene\<close>

subsection \<open>Text helpers\<close>

definition backslash :: char where
  "backslash = CHR 0x5C"

definition dquote :: char where
  "dquote = CHR 0x22"

definition digit_char :: "nat \<Rightarrow> char" where
  "digit_char d = char_of (48 + d)"

text \<open>\<^verbatim>\<open>str(n)\<close> for a natural number.\<close>

fun str_nat :: "nat \<Rightarrow> string" where
  "str_nat n = (if n < 10 then [digit_char n] else str_nat (n div 10) @ [digit_char (n mod 10)])"

declare str_nat.simps [simp del]

text \<open>\<^verbatim>\<open>str(i)\<close> for an integer.\<close>

definition str_int :: "int \<Rightarrow> string" where
  "str_int i = (if i < 0 then CHR ''-'' # str_nat (nat (- i)) else str_nat (nat i))"

text \<open>\<^verbatim>\<open>range(start, stop, step)\<close> for a positive step.\<close>

definition py_range :: "int \<Rightarrow> int \<Rightarrow> int \<Rightarrow> int list" where
  "py_range start stop step =
     map (\<lambda>k. start + step * int k) [0 ..< nat ((stop - start + step - 1) div step)]"

text \<open>The directory \<^verbatim>\<open>bw_frames\<close> under the working directory, and a file in it.\<close>

definition frames_file :: "string \<Rightarrow> string \<Rightarrow> string" where
  "frames_file filepath file = filepath @ [backslash] @ ''bw_frames'' @ [backslash] @ file"

subsection \<open>Effects\<close>

text \<open>
  What the program does to the outside world, in the order it does it: files written,
  encoder runs, commands run to completion (\<^verbatim>\<open>subprocess.run\<close>), commands started and left
  running (\<^verbatim>\<open>subprocess.Popen\<close>), sleeps.
\<close>

record encode_job =
  enc_input :: string
  enc_framerate :: nat
  enc_output :: string
  enc_pix_fmt :: string

datatype effect =
    WritePng string image
  | Encode encode_job
  | Run string
  | Popen string
  | Sleep rat
  | Print string

subsection \<open>\<^verbatim>\<open>Datapath.make_scene\<close>\<close>

text \<open>The arguments \<^verbatim>\<open>(theta, label)\<close> of the successive \<^verbatim>\<open>make_frame\<close> calls.  The angles are
  multiples of 9, so \<^verbatim>\<open>int(i/9)\<close> is the exact quotient.\<close>

definition frame_calls :: "(int \<times> string) list" where
  "frame_calls = map (\<lambda>i. (i, str_int (i div 9))) (py_range 0 181 9)"

text \<open>
  The second encoder run, which loops the short video and trims the result.  To the
  encoder \<^verbatim>\<open>-stream_loop n\<close> repeats the input \<open>n\<close> more times and \<^verbatim>\<open>-t mm:ss\<close> stops writing
  at that duration; the two numbers of the command are kept as constants.
\<close>

definition stream_loop :: nat where
  "stream_loop = 1000"

definition trim_seconds :: nat where
  "trim_seconds = 180"

definition two_digits :: "nat \<Rightarrow> string" where
  "two_digits n = [digit_char (n div 10), digit_char (n mod 10)]"

definition mmss :: "nat \<Rightarrow> string" where
  "mmss secs = two_digits (secs div 60) @ '':'' @ two_digits (secs mod 60)"

definition loop_cmd :: "string \<Rightarrow> string \<Rightarrow> string" where
  "loop_cmd filepath name =
     ''ffmpeg -t '' @ mmss trim_seconds @ '' -loglevel fatal -y -stream_loop '' @
     str_nat stream_loop @ '' -i '' @ [dquote] @
     frames_file filepath ''video.mp4'' @ [dquote] @ '' -c copy '' @ [dquote] @
     frames_file filepath (name @ ''.mp4'') @ [dquote]"

text \<open>The playback rate of the first encoder run.\<close>

definition framerate :: nat where
  "framerate = 50"

definition make_scene :: "string \<Rightarrow> scene_args \<Rightarrow> effect list" where
  "make_scene filepath a =
     map (\<lambda>(i, label). WritePng (frames_file filepath (label @ ''.png''))
                          (make_frame a (of_int i))) frame_calls @
     [Encode \<lparr>enc_input = frames_file filepath ''%d.png'', enc_framerate = framerate,
              enc_output = frames_file filepath ''video.mp4'', enc_pix_fmt = ''yuv420p''\<rparr>,
      Run (loop_cmd filepath (sc_name a))]"

subsection \<open>\<^verbatim>\<open>Datapath.play_scene\<close>, \<^verbatim>\<open>capture_frames\<close> and \<^verbatim>\<open>pscc\<close>\<close>

definition play_scene :: "string \<Rightarrow> effect" where
  "play_scene filepath =
     Popen (''ffplay -fs -loglevel fatal -autoexit '' @ [dquote] @
            frames_file filepath ''scene.mp4'' @ [dquote])"

definition capture_frames :: "string \<Rightarrow> string \<Rightarrow> effect" where
  "capture_frames rtsp filepath =
     Run (''ffmpeg -rtsp_transport tcp -loglevel error -i '' @ rtsp @ '' -y '' @
          filepath @ [backslash] @ ''test.png'')"

text \<open>
  What the polling loop of \<^verbatim>\<open>check_motion\<close> does besides collecting readings: after every
  reading it prints it and sleeps for three seconds, before any test of the list.  The
  function follows the control flow of \<open>check_motion_loop\<close> on the same arguments.
\<close>

definition poll_effects :: "int \<Rightarrow> effect list" where
  "poll_effects motion_detec = [Print (''motion detected:  '' @ str_int motion_detec), Sleep 3]"

fun check_motion_log :: "string list \<Rightarrow> int list \<Rightarrow> effect list" where
  "check_motion_log [] motion_list = []"
| "check_motion_log (daemon_output # rest) motion_list =
     (case poll_motion daemon_output of
        Inl e \<Rightarrow> []
      | Inr motion_detec \<Rightarrow>
          (let motion_list' = motion_list @ [motion_detec]
           in poll_effects motion_detec @
              (if length motion_list' < sample_range then check_motion_log rest motion_list'
               else if length motion_list' = 20 then []
               else (let data_set = last_n sample_range motion_list'
                     in if np_var data_set = 0 then []
                        else check_motion_log rest motion_list'))))"

text \<open>The fields of a \<^verbatim>\<open>Datapath\<close> object that \<^verbatim>\<open>pscc\<close> reads or writes, and the log of its
  effects.\<close>

record datapath =
  dp_filepath :: string
  dp_rtsp :: string
  dp_detail :: detail_scores
  dp_motion_score :: "int option"
  dp_motion_list :: "int list"
  dp_log :: "effect list"

text \<open>What the outside world answers during one \<^verbatim>\<open>pscc\<close> call: the output of the detail
  tool (\<open>None\<close>: executable not found) and the answers to the successive \<^verbatim>\<open>ms\<close> commands.\<close>

record probe =
  detail_answer :: "string option"
  ms_answers :: "string list"

datatype status = Returned | Raised error | Polling

definition pscc :: "rat \<Rightarrow> string \<Rightarrow> probe \<Rightarrow> datapath \<Rightarrow> datapath \<times> status" where
  "pscc wait_time parameter pr st =
     (let st1 = st\<lparr>dp_log := dp_log st @ [play_scene (dp_filepath st)]\<rparr>;
          st2 = st1\<lparr>dp_log := dp_log st1 @ [Sleep wait_time]\<rparr>
      in if parameter = ''detail'' then
           (let st3 = st2\<lparr>dp_log := dp_log st2 @ [capture_frames (dp_rtsp st2) (dp_filepath st2)]\<rparr>
            in case check_detail (detail_answer pr) (dp_detail st3) of
                 Inl e \<Rightarrow> (st3, Raised e)
               | Inr d \<Rightarrow> (st3\<lparr>dp_detail := d\<rparr>, Returned))
         else if parameter = ''motion'' then
           (let st3 = st2\<lparr>dp_log := dp_log st2 @ check_motion_log (ms_answers pr) []\<rparr>
            in case check_motion (ms_answers pr) of
                 None \<Rightarrow> (st3, Polling)
               | Some (Inl e) \<Rightarrow> (st3, Raised e)
               | Some (Inr (score, motion_list)) \<Rightarrow>
                   (st3\<lparr>dp_motion_score := Some score, dp_motion_list := motion_list\<rparr>, Returned))
         else
           (st2\<lparr>dp_log := dp_log st2 @
              [Print ''Please specify which parameter you want to check, detail or motion?'']\<rparr>,
            Raised SystemExit))"

text \<open>The names under which the three scenario procedures assemble their final scene.\<close>

definition high_name :: "int \<Rightarrow> string" where
  "high_name motion_target = ''high_'' @ str_int motion_target @ ''%''"

definition low_name :: "int \<Rightarrow> string" where
  "low_name motion_target = ''low_'' @ str_int motion_target @ ''%''"

definition medium_name :: "int \<Rightarrow> string" where
  "medium_name motion_target = ''medium_'' @ str_int motion_target @ ''%''"

section \<open>The calibration controller\<close>

subsection \<open>State and device\<close>

text \<open>
  The attributes of a \<^verbatim>\<open>Controller\<close> object that the search procedures read or write.
  \<open>scenes\<close> logs the arguments of every \<^verbatim>\<open>make_scene\<close> call in order, \<open>cycles\<close> counts the
  \<^verbatim>\<open>pscc\<close> calls.  \<open>self_high_detail\<close> and \<open>self_low_detail\<close> are \<^verbatim>\<open>self.high_detail\<close> and
  \<^verbatim>\<open>self.low_detail\<close>.  Sizes and positions are Python floats; the model computes with
  exact rationals.
\<close>

record controller =
  mo_size :: rat
  fineness :: int
  tolerance :: int
  motion_target :: int
  high_detail_target :: int
  low_detail_target :: int
  motion_score :: int
  self_high_detail :: int
  self_low_detail :: int
  direction :: int
  height :: rat
  box_motion_margin :: rat
  x_limit :: rat
  length_1 :: rat
  length_2 :: rat
  rect1_x_pos :: rat
  rect2_x_pos :: rat
  rect1 :: rect
  rect2 :: rect
  rects :: "rect list"
  poss :: "rat list"
  lengths :: "rat list"
  scenes :: "scene_args list"
  cycles :: nat

text \<open>
  The device as the controller sees it through \<^verbatim>\<open>pscc\<close>: the scores that the \<open>k\<close>-th
  play-and-sample cycle leaves in \<^verbatim>\<open>self.motion_score\<close>, or in \<^verbatim>\<open>self.high_detail\<close> and
  \<^verbatim>\<open>self.low_detail\<close>, given the scene that is playing.  The controller procedures are
  modelled for the runs in which sampling returns.
\<close>

record device =
  motion_of :: "nat \<Rightarrow> scene_args option \<Rightarrow> int"
  detail_of :: "nat \<Rightarrow> scene_args option \<Rightarrow> int \<times> int"

text \<open>\<^verbatim>\<open>play_scene\<close> plays \<^verbatim>\<open>scene.mp4\<close>: the scene most recently assembled under the name
  \<^verbatim>\<open>scene\<close>, if there is one.\<close>

definition playing :: "controller \<Rightarrow> scene_args option" where
  "playing st =
     (case filter (\<lambda>a. sc_name a = ''scene'') (scenes st) of
        [] \<Rightarrow> None
      | a # as \<Rightarrow> Some (last (a # as)))"

definition ctl_make_scene :: "scene_args \<Rightarrow> controller \<Rightarrow> controller" where
  "ctl_make_scene a st = st\<lparr>scenes := scenes st @ [a]\<rparr>"


definition pscc_detail :: "device \<Rightarrow> controller \<Rightarrow> controller" where
  "pscc_detail dev st =
     st\<lparr>self_high_detail := fst (detail_of dev (cycles st) (playing st)),
        self_low_detail := snd (detail_of dev (cycles st) (playing st)),
        cycles := Suc (cycles st)\<rparr>"

text \<open>
  A loop that may run forever is given a bound on its iterations.  \<open>Done\<close> is the state at
  the \<^verbatim>\<open>break\<close>; \<open>Pending\<close> is the state, with the loop's local bounds, when the bound is used
  up and the loop would go on.
\<close>

datatype ('s, 'l) run = Done 's | Pending 's 'l

subsection \<open>\<^verbatim>\<open>Controller.make_motion\<close>\<close>



subsection \<open>\<^verbatim>\<open>Controller.hd_delta\<close>\<close>

definition hd_scene :: "controller \<Rightarrow> scene_args" where
  "hd_scene st =
     default_scene\<lparr>sc_mo_size := mo_size st, sc_fineness := fineness st,
                   sc_rect1 := rect1 st, sc_rect2 := rect2 st\<rparr>"

text \<open>The first loop: probe with the fineness raised by one until the distance to the
  target differs from the initial one.  The result carries the last \<^verbatim>\<open>delta\<close>.\<close>

fun hd_probe :: "device \<Rightarrow> nat \<Rightarrow> int \<Rightarrow> controller \<Rightarrow> (controller \<times> int, unit) run" where
  "hd_probe dev 0 delta_i st = Pending (st, delta_i) ()"
| "hd_probe dev (Suc n) delta_i st =
     (let st1 = st\<lparr>fineness := fineness st + 1\<rparr>;
          st2 = ctl_make_scene (hd_scene st1) st1;
          st3 = pscc_detail dev st2;
          delta = \<bar>self_high_detail st3 - high_detail_target st3\<bar>
      in if delta > delta_i then Done (st3\<lparr>direction := - 1\<rparr>, delta)
         else if delta < delta_i then Done (st3\<lparr>direction := 1\<rparr>, delta)
         else hd_probe dev n delta_i st3)"

text \<open>The second loop: step in the chosen direction; the argument \<open>delta\<close> is the distance
  measured last.\<close>

fun hd_descend :: "device \<Rightarrow> nat \<Rightarrow> int \<Rightarrow> controller \<Rightarrow> (controller, int) run" where
  "hd_descend dev 0 delta st = Pending st delta"
| "hd_descend dev (Suc n) delta st =
     (let st1 = st\<lparr>fineness := fineness st + direction st\<rparr>;
          previous_delta = delta;
          st2 = ctl_make_scene (hd_scene st1) st1;
          st3 = pscc_detail dev st2;
          delta' = \<bar>self_high_detail st3 - high_detail_target st3\<bar>
      in if delta' < previous_delta then hd_descend dev n delta' st3
         else if delta' > previous_delta then
           Done (st3\<lparr>fineness := fineness st3 + - direction st3\<rparr>)
         else hd_descend dev n delta' st3)"

text \<open>Each of the two loops runs for at most \<open>n\<close> iterations.\<close>

definition hd_delta :: "device \<Rightarrow> nat \<Rightarrow> controller \<Rightarrow> (controller, int) run" where
  "hd_delta dev n st =
     (let delta_i = \<bar>self_high_detail st - high_detail_target st\<bar>
      in case hd_probe dev n delta_i st of
           Pending (st', d) u \<Rightarrow> Pending st' d
         | Done (st', delta) \<Rightarrow> hd_descend dev n delta st')"

subsection \<open>\<^verbatim>\<open>Controller.ld_rect\<close>\<close>

text \<open>
  \<^verbatim>\<open>int(math.sqrt(q))\<close> for \<open>q \<ge> 0\<close>: the integer part of the square root.  \<open>isqrt\<close> computes
  it for an integer, two bits at a time.
\<close>

definition isqrt_step :: "int \<Rightarrow> int \<Rightarrow> int" where
  "isqrt_step n r = (if (r + 1) * (r + 1) \<le> n then r + 1 else r)"

function isqrt :: "int \<Rightarrow> int" where
  "isqrt n =
     (if n < 4 then (if n \<le> 0 then 0 else 1)
      else isqrt_step n (2 * isqrt (n div 4)))"
  by pat_completeness auto
termination
  by (relation "measure nat") auto

declare isqrt.simps [simp del]

definition int_sqrt :: "rat \<Rightarrow> int" where
  "int_sqrt q = isqrt \<lfloor>q\<rfloor>"




text \<open>The assignments of \<^verbatim>\<open>ld_rect\<close> before the first \<^verbatim>\<open>tune_rect\<close>.\<close>

definition ld_rect_init :: "controller \<Rightarrow> controller" where
  "ld_rect_init st =
     (let st1 = st\<lparr>height := of_int ver_res\<rparr>;
          st2 = st1\<lparr>box_motion_margin := 100\<rparr>;
          st3 = st2\<lparr>x_limit := of_int hor_res / 2
                     - of_int (int_sqrt ((mo_size st2 / 2) ^ 2 + (of_int mo_size_y / 2) ^ 2))
                     - box_motion_margin st2\<rparr>;
          st4 = st3\<lparr>length_1 := x_limit st3\<rparr>;
          st5 = st4\<lparr>length_2 := 0\<rparr>;
          st6 = st5\<lparr>rect1_x_pos := 0\<rparr>;
          st7 = st6\<lparr>rect2_x_pos := of_int hor_res - x_limit st6\<rparr>;
          st8 = st7\<lparr>rect1 := \<lparr>rect_x = rect1_x_pos st7, rect_y = 0,
                              rect_length = length_1 st7, rect_height = height st7\<rparr>\<rparr>;
          st9 = st8\<lparr>rect2 := \<lparr>rect_x = rect2_x_pos st8, rect_y = 0,
                              rect_length = length_2 st8, rect_height = height st8\<rparr>\<rparr>;
          st10 = st9\<lparr>rects := [rect1 st9, rect2 st9]\<rparr>;
          st11 = st10\<lparr>poss := [rect1_x_pos st10, rect2_x_pos st10]\<rparr>
      in st11\<lparr>lengths := [length_1 st11, length_2 st11]\<rparr>)"


subsection \<open>The motion object's bounding circle\<close>








text \<open>The scenes a procedure assembled: the part of the log it added.\<close>

definition new_scenes :: "controller \<Rightarrow> controller \<Rightarrow> scene_args list" where
  "new_scenes before after = drop (length (scenes before)) (scenes after)"


section \<open>Vocabulary of the properties\<close>

text \<open>A text contains a score pattern when some part of it has the pattern's shape.\<close>

definition has_detail_pattern :: "string \<Rightarrow> string \<Rightarrow> bool" where
  "has_detail_pattern key t =
     (\<exists>pre w ds post. t = pre @ key @ w # ds @ ''%'' @ post
        \<and> is_space w \<and> ds \<noteq> [] \<and> list_all is_digit ds)"

definition has_motion_pattern :: "string \<Rightarrow> bool" where
  "has_motion_pattern t =
     (\<exists>pre w ds w' post. t = pre @ ''30s:'' @ w # ds @ w' # ''percent'' @ post
        \<and> is_space w \<and> ds \<noteq> [] \<and> list_all is_digit ds \<and> is_space w')"

text \<open>An answer of the \<^verbatim>\<open>ms\<close> command that reports the score \<open>n\<close>.\<close>

definition ms_text :: "nat \<Rightarrow> string" where
  "ms_text n = ''30s: '' @ str_nat n @ '' percent''"

subsection \<open>A start state and a mock device\<close>

text \<open>
  A \<^verbatim>\<open>Controller\<close> object as the constructor leaves it: fineness 9 and the given
  tolerance.  The attributes that the constructor does not assign are given 0 or the
  empty list here.  \<open>scenario_start\<close> adds the three targets that every scenario procedure
  assigns first.
\<close>

definition fresh_controller :: "int \<Rightarrow> controller" where
  "fresh_controller tol =
     \<lparr>mo_size = 0, fineness = 9, tolerance = tol, motion_target = 0,
      high_detail_target = 0, low_detail_target = 0, motion_score = 0,
      self_high_detail = 0, self_low_detail = 0, direction = 0, height = 0,
      box_motion_margin = 0, x_limit = 0, length_1 = 0, length_2 = 0, rect1_x_pos = 0,
      rect2_x_pos = 0, rect1 = zero_rect, rect2 = zero_rect, rects = [], poss = [],
      lengths = [], scenes = [], cycles = 0\<rparr>"

definition scenario_start :: "int \<Rightarrow> int \<Rightarrow> int \<Rightarrow> int \<Rightarrow> controller" where
  "scenario_start tol high low motion =
     (fresh_controller tol)\<lparr>high_detail_target := high, low_detail_target := low,
                            motion_target := motion\<rparr>"

text \<open>
  A deterministic device whose scores are fixed functions of the scene that is playing:
  the motion score grows with the size of the motion object, the high detail score falls
  with the fineness in steps that span two values of it, the low detail score grows with
  the total length of the auxiliary rectangles.
\<close>

definition mock_motion :: "rat \<Rightarrow> int" where
  "mock_motion sz = \<lfloor>sz / 100\<rfloor>"

definition mock_low :: "rat \<Rightarrow> rat \<Rightarrow> int" where
  "mock_low l1 l2 = \<lfloor>(\<bar>l1\<bar> + \<bar>l2\<bar>) / 20\<rfloor>"

definition mock_high :: "int \<Rightarrow> int" where
  "mock_high g = 66 - 6 * (g div 2)"

definition mock_device :: device where
  "mock_device =
     \<lparr>motion_of = (\<lambda>k a. case a of None \<Rightarrow> 0 | Some sc \<Rightarrow> mock_motion (sc_mo_size sc)),
      detail_of = (\<lambda>k a. case a of
                            None \<Rightarrow> (0, 0)
                          | Some sc \<Rightarrow>
                              (mock_high (sc_fineness sc),
                               mock_low (rect_length (sc_rect1 sc)) (rect_length (sc_rect2 sc))))\<rparr>"

text \<open>The distance to the high detail target that \<^verbatim>\<open>hd_delta\<close> measures in cycle \<open>k\<close> when the
  scene is the one of the state \<open>st\<close> with the fineness \<open>g\<close>.\<close>

definition hd_reading :: "device \<Rightarrow> controller \<Rightarrow> nat \<Rightarrow> int \<Rightarrow> int" where
  "hd_reading dev st k g =
     \<bar>fst (detail_of dev k (Some (hd_scene (st\<lparr>fineness := g\<rparr>)))) - high_detail_target st\<bar>"

text \<open>
  For \<^verbatim>\<open>ld_rect\<close> started in the state \<open>st\<close>: the value it gives \<^verbatim>\<open>self.x_limit\<close>, and the
  scene it assembles when the two rectangles have the lengths \<open>l1\<close> and \<open>l2\<close>.
\<close>

definition ld_x_limit :: "controller \<Rightarrow> rat" where
  "ld_x_limit st = x_limit (ld_rect_init st)"

definition ld_scene :: "controller \<Rightarrow> rat \<Rightarrow> rat \<Rightarrow> scene_args" where
  "ld_scene st l1 l2 =
     \<lparr>sc_mo_size = mo_size st, sc_fineness = fineness st,
      sc_rect1 = \<lparr>rect_x = 0, rect_y = 0, rect_length = l1, rect_height = 2160\<rparr>,
      sc_rect2 = \<lparr>rect_x = 3840 - ld_x_limit st, rect_y = 0, rect_length = l2,
                  rect_height = 2160\<rparr>,
      sc_name = ''scene''\<rparr>"


text \<open>What \<^verbatim>\<open>ld_rect\<close> keeps fixed once it has initialised its attributes.\<close>

definition ld_inv :: "controller \<Rightarrow> controller \<Rightarrow> rat \<Rightarrow> rat \<Rightarrow> bool" where
  "ld_inv st s l1 l2 =
     (mo_size s = mo_size st \<and> fineness s = fineness st \<and> tolerance s = tolerance st \<and>
      low_detail_target s = low_detail_target st \<and> height s = 2160 \<and>
      x_limit s = ld_x_limit st \<and> poss s = [0, 3840 - ld_x_limit st] \<and>
      lengths s = [l1, l2] \<and>
      rects s = [sc_rect1 (ld_scene st l1 l2), sc_rect2 (ld_scene st l1 l2)])"

chapter \<open>Properties\<close>

section \<open>The regular expressions find what they describe\<close>

lemma strip_prefix_Some: "strip_prefix p s = Some r \<longleftrightarrow> s = p @ r"
  by (induction p s rule: strip_prefix.induct) auto

lemma strip_prefix_None: "strip_prefix p s = None \<longleftrightarrow> (\<forall>r. s \<noteq> p @ r)"
  by (induction p s rule: strip_prefix.induct) auto

lemma re_search_None: "re_search m s = None \<longleftrightarrow> (\<forall>pre post. s = pre @ post \<longrightarrow> m post = None)"
proof (induction s)
  case Nil
  then show ?case by simp
next
  case (Cons c cs)
  show ?case
  proof (cases "m (c # cs)")
    case None
    then show ?thesis using Cons by (auto simp: Cons_eq_append_conv)
  next
    case (Some g)
    then have "\<exists>pre post. c # cs = pre @ post \<and> m post \<noteq> None"
      by (intro exI[of _ "[]"] exI[of _ "c # cs"]) simp
    with Some show ?thesis by auto
  qed
qed

lemma space_not_digit: "is_space c \<Longrightarrow> \<not> is_digit c"
  by (auto simp: is_space_def is_digit_def)

lemma percent_not_digit: "\<not> is_digit CHR ''%''"
  by (simp add: is_digit_def)

lemma digits1_Some:
  "digits1 s = Some (ds, r) \<longleftrightarrow> s = ds @ r \<and> ds \<noteq> [] \<and> list_all is_digit ds \<and> (r = [] \<or> \<not> is_digit (hd r))"
proof
  assume "digits1 s = Some (ds, r)"
  then have ds: "ds = takeWhile is_digit s" and r: "r = dropWhile is_digit s" and ne: "ds \<noteq> []"
    by (auto simp: digits1_def Let_def split: if_splits)
  have "list_all is_digit ds" unfolding ds list_all_iff by (auto dest: set_takeWhileD)
  moreover have "r = [] \<or> \<not> is_digit (hd r)" unfolding r using hd_dropWhile[of is_digit s] by blast
  ultimately show "s = ds @ r \<and> ds \<noteq> [] \<and> list_all is_digit ds \<and> (r = [] \<or> \<not> is_digit (hd r))"
    using ne by (simp add: ds r)
next
  assume a: "s = ds @ r \<and> ds \<noteq> [] \<and> list_all is_digit ds \<and> (r = [] \<or> \<not> is_digit (hd r))"
  then have all: "\<forall>x\<in>set ds. is_digit x" by (simp add: list_all_iff)
  from a have r: "r = [] \<or> \<not> is_digit (hd r)" by simp
  have "takeWhile is_digit (ds @ r) = ds"
    using all r by (cases r) (auto simp: takeWhile_append2)
  moreover have "dropWhile is_digit (ds @ r) = r"
    using all r by (cases r) (auto simp: dropWhile_append2)
  ultimately show "digits1 s = Some (ds, r)" using a by (simp add: digits1_def)
qed

lemma match_detail_at_iff:
  "match_detail_at key s \<noteq> None \<longleftrightarrow>
     (\<exists>w ds post. s = key @ w # ds @ ''%'' @ post \<and> is_space w \<and> ds \<noteq> [] \<and> list_all is_digit ds)"
proof
  assume "match_detail_at key s \<noteq> None"
  then obtain c r ds r' post where "strip_prefix key s = Some (c # r)" "is_space c"
      "digits1 r = Some (ds, r')" "strip_prefix ''%'' r' = Some post"
    by (auto simp: match_detail_at_def split: option.splits list.splits if_splits)
  then show "\<exists>w ds post. s = key @ w # ds @ ''%'' @ post \<and> is_space w \<and> ds \<noteq> [] \<and> list_all is_digit ds"
    unfolding strip_prefix_Some digits1_Some by auto
next
  assume "\<exists>w ds post. s = key @ w # ds @ ''%'' @ post \<and> is_space w \<and> ds \<noteq> [] \<and> list_all is_digit ds"
  then obtain w ds post where s: "s = key @ w # ds @ ''%'' @ post" and w: "is_space w"
      and ds: "ds \<noteq> []" "list_all is_digit ds" by blast
  have 1: "strip_prefix key s = Some (w # ds @ ''%'' @ post)" by (simp add: strip_prefix_Some s)
  have 2: "digits1 (ds @ ''%'' @ post) = Some (ds, ''%'' @ post)"
    unfolding digits1_Some using ds percent_not_digit by simp
  show "match_detail_at key s \<noteq> None"
    using 1 2 w by (simp add: match_detail_at_def)
qed

lemma match_motion_at_iff:
  "match_motion_at s \<noteq> None \<longleftrightarrow>
     (\<exists>w ds w' post. s = ''30s:'' @ w # ds @ w' # ''percent'' @ post
         \<and> is_space w \<and> ds \<noteq> [] \<and> list_all is_digit ds \<and> is_space w')"
proof
  assume "match_motion_at s \<noteq> None"
  then obtain c r ds c' r'' post where "strip_prefix ''30s:'' s = Some (c # r)" "is_space c"
      "digits1 r = Some (ds, c' # r'')" "is_space c'" "strip_prefix ''percent'' r'' = Some post"
    by (auto simp: match_motion_at_def split: option.splits list.splits if_splits)
  then show "\<exists>w ds w' post. s = ''30s:'' @ w # ds @ w' # ''percent'' @ post
         \<and> is_space w \<and> ds \<noteq> [] \<and> list_all is_digit ds \<and> is_space w'"
    unfolding strip_prefix_Some digits1_Some by auto
next
  assume "\<exists>w ds w' post. s = ''30s:'' @ w # ds @ w' # ''percent'' @ post
         \<and> is_space w \<and> ds \<noteq> [] \<and> list_all is_digit ds \<and> is_space w'"
  then obtain w ds w' post where s: "s = ''30s:'' @ w # ds @ w' # ''percent'' @ post"
      and w: "is_space w" "is_space w'" and ds: "ds \<noteq> []" "list_all is_digit ds" by blast
  have 1: "strip_prefix ''30s:'' s = Some (w # ds @ w' # ''percent'' @ post)"
    unfolding strip_prefix_Some s by simp
  have 2: "digits1 (ds @ w' # ''percent'' @ post) = Some (ds, w' # ''percent'' @ post)"
    unfolding digits1_Some using ds w space_not_digit by simp
  have 3: "strip_prefix ''percent'' (''percent'' @ post) = Some post"
    unfolding strip_prefix_Some by simp
  show "match_motion_at s \<noteq> None"
    using 1 2 3 w unfolding match_motion_at_def by simp
qed

lemma search_motion_None: "search_motion t = None \<longleftrightarrow> \<not> has_motion_pattern t"
proof -
  have "has_motion_pattern t \<longleftrightarrow> (\<exists>pre post. t = pre @ post \<and> match_motion_at post \<noteq> None)"
    unfolding has_motion_pattern_def match_motion_at_iff by (simp; blast)
  then show ?thesis unfolding search_motion_def re_search_None by auto
qed

lemma search_detail_None:
  "re_search (match_detail_at key) t = None \<longleftrightarrow> \<not> has_detail_pattern key t"
proof -
  have "has_detail_pattern key t \<longleftrightarrow> (\<exists>pre post. t = pre @ post \<and> match_detail_at key post \<noteq> None)"
    unfolding has_detail_pattern_def match_detail_at_iff by (simp; blast)
  then show ?thesis unfolding re_search_None by auto
qed

section \<open>The motion sampler\<close>

lemma sum_list_const: "\<forall>x\<in>set xs. x = c \<Longrightarrow> sum_list xs = int (length xs) * (c::int)"
  by (induction xs) (auto simp: algebra_simps)

lemma sum_list_sq_zero:
  "sum_list (map (\<lambda>x. (f x :: rat) ^ 2) xs) = 0 \<longleftrightarrow> (\<forall>x\<in>set xs. f x = 0)"
proof (induction xs)
  case Nil
  then show ?case by simp
next
  case (Cons a xs)
  have nn: "0 \<le> sum_list (map (\<lambda>x. (f x) ^ 2) xs)"
    by (rule sum_list_nonneg) auto
  have "(f a)^2 + sum_list (map (\<lambda>x. (f x) ^ 2) xs) = 0 \<longleftrightarrow> (f a)^2 = 0 \<and> sum_list (map (\<lambda>x. (f x) ^ 2) xs) = 0"
    using nn by (simp add: add_nonneg_eq_0_iff)
  then show ?case using Cons by simp
qed

lemma np_var_zero_iff:
  assumes "xs \<noteq> []"
  shows "np_var xs = 0 \<longleftrightarrow> (\<forall>x\<in>set xs. x = last xs)"
proof
  assume v: "np_var xs = 0"
  let ?mu = "(of_int (sum_list xs) :: rat) / of_nat (length xs)"
  from assms have n: "(of_nat (length xs) :: rat) \<noteq> 0" by simp
  from v n have "sum_list (map (\<lambda>x. (of_int x - ?mu) ^ 2) xs) = 0"
    by (simp add: np_var_def Let_def)
  then have all: "\<forall>x\<in>set xs. (of_int x :: rat) = ?mu"
    unfolding sum_list_sq_zero by simp
  show "\<forall>x\<in>set xs. x = last xs"
  proof
    fix x assume "x \<in> set xs"
    with all have "(of_int x :: rat) = ?mu" by blast
    moreover from assms all have "(of_int (last xs) :: rat) = ?mu" by simp
    ultimately have "(of_int x :: rat) = of_int (last xs)" by simp
    then show "x = last xs" by simp
  qed
next
  assume all: "\<forall>x\<in>set xs. x = last xs"
  then have s: "sum_list xs = int (length xs) * last xs" by (rule sum_list_const)
  from assms have n: "(of_nat (length xs) :: rat) \<noteq> 0" by simp
  have mu: "(of_int (sum_list xs) :: rat) / of_nat (length xs) = of_int (last xs)"
    using n by (simp add: s)
  have "sum_list (map (\<lambda>x. (of_int x - (of_int (last xs) :: rat)) ^ 2) xs) = 0"
    unfolding sum_list_sq_zero using all by simp
  then show "np_var xs = 0"
    by (simp add: np_var_def Let_def mu)
qed

lemma last_last_n: "0 < n \<Longrightarrow> xs \<noteq> [] \<Longrightarrow> last (last_n n xs) = last xs"
  by (simp add: last_n_def last_drop)

lemma check_motion_loop_run:
  assumes as: "map poll_motion as = map Inr rs"
    and k: "k \<le> length rs" "k \<le> 20"
    and stop: "k = 20 \<or> (10 \<le> k \<and> np_var (last_n 10 (take k rs)) = 0)"
    and before: "\<forall>j. i < j \<and> j < k \<longrightarrow> j < 10 \<or> np_var (last_n 10 (take j rs)) \<noteq> 0"
    and i: "i < k"
  shows "check_motion_loop (drop i as) (take i rs) =
           Some (Inr (if k = 20 then int_mean (take 20 rs) else rs ! (k - 1), take k rs))"
  using i before
proof (induction "k - i" arbitrary: i)
  case 0
  then show ?case by simp
next
  case (Suc d)
  from as have len: "length as = length rs" by (metis length_map)
  from Suc.prems k have il: "i < length rs" by simp
  have d: "drop i as = as ! i # drop (Suc i) as"
    using il len by (simp add: Cons_nth_drop_Suc)
  have "map poll_motion as ! i = map Inr rs ! i" using as by simp
  then have p: "poll_motion (as ! i) = Inr (rs ! i)" using il len by simp
  have t: "take i rs @ [rs ! i] = take (Suc i) rs"
    using il by (simp add: take_Suc_conv_app_nth)
  have lt: "length (take (Suc i) rs) = Suc i" using il by simp
  have step: "check_motion_loop (drop i as) (take i rs) =
      (if Suc i < 10 then check_motion_loop (drop (Suc i) as) (take (Suc i) rs)
       else if Suc i = 20 then Some (Inr (int_mean (take (Suc i) rs), take (Suc i) rs))
       else if np_var (last_n 10 (take (Suc i) rs)) = 0
            then Some (Inr (last (last_n 10 (take (Suc i) rs)), take (Suc i) rs))
       else check_motion_loop (drop (Suc i) as) (take (Suc i) rs))"
    unfolding d check_motion_loop.simps p sum.case Let_def t lt sample_range_def by simp
  have ne: "take (Suc i) rs \<noteq> []" using il by (cases rs) auto
  have lastk: "last (last_n 10 (take (Suc i) rs)) = rs ! i"
  proof -
    have "last (take (Suc i) rs) = take (Suc i) rs ! (length (take (Suc i) rs) - 1)"
      using ne by (rule last_conv_nth)
    also have "\<dots> = rs ! i" unfolding lt by simp
    finally show ?thesis using ne by (simp add: last_last_n)
  qed
  have IH: "Suc i < k \<Longrightarrow> check_motion_loop (drop (Suc i) as) (take (Suc i) rs) =
           Some (Inr (if k = 20 then int_mean (take 20 rs) else rs ! (k - 1), take k rs))"
    using Suc.hyps(1)[of "Suc i"] Suc.hyps(2) Suc.prems by auto
  consider (a) "Suc i < 10" | (b) "Suc i = 20" | (c) "10 \<le> Suc i" "Suc i \<noteq> 20" by linarith
  then show ?case
  proof cases
    case a
    with stop Suc.prems have "Suc i < k" by auto
    with a step IH show ?thesis by simp
  next
    case b
    with k Suc.prems have "k = 20" by simp
    with b step show ?thesis by simp
  next
    case c
    show ?thesis
    proof (cases "np_var (last_n 10 (take (Suc i) rs)) = 0")
      case True
      have "Suc i = k"
      proof (rule ccontr)
        assume "Suc i \<noteq> k"
        with Suc.prems have "i < Suc i \<and> Suc i < k" by simp
        with Suc.prems(2) have "Suc i < 10 \<or> np_var (last_n 10 (take (Suc i) rs)) \<noteq> 0" by blast
        with c True show False by simp
      qed
      with c True step lastk show ?thesis by auto
    next
      case False
      have "Suc i < k"
      proof (rule ccontr)
        assume "\<not> Suc i < k"
        with Suc.prems have "Suc i = k" by simp
        with stop c False show False by auto
      qed
      with c False step IH show ?thesis by simp
    qed
  qed
qed

lemma check_motion_loop_total:
  "20 \<le> length as + length ml \<Longrightarrow> length ml < 20 \<Longrightarrow> check_motion_loop as ml \<noteq> None"
proof (induction as arbitrary: ml)
  case Nil
  then show ?case by simp
next
  case (Cons a as)
  show ?case
  proof (cases "poll_motion a")
    case (Inl e)
    then show ?thesis by simp
  next
    case (Inr r)
    show ?thesis
    proof (cases "length ml = 19")
      case True
      with Inr show ?thesis by (simp add: sample_range_def Let_def)
    next
      case False
      with Cons.prems have "20 \<le> length as + length (ml @ [r])" "length (ml @ [r]) < 20" by auto
      then have "check_motion_loop as (ml @ [r]) \<noteq> None" by (rule Cons.IH)
      with Inr show ?thesis by (simp add: Let_def)
    qed
  qed
qed

lemma check_motion_loop_length:
  "check_motion_loop as ml = Some (Inr (s, ml')) \<Longrightarrow> length ml < 20 \<Longrightarrow>
     length ml' \<le> 20 \<and> length ml < length ml' \<and> take (length ml) ml' = ml"
proof (induction as arbitrary: ml)
  case Nil
  then show ?case by simp
next
  case (Cons a as)
  show ?case
  proof (cases "poll_motion a")
    case (Inl e)
    with Cons.prems show ?thesis by simp
  next
    case (Inr r)
    show ?thesis
    proof (cases "length ml = 19")
      case True
      with Inr Cons.prems show ?thesis by (auto simp: sample_range_def Let_def)
    next
      case False
      with Cons.prems have l: "length (ml @ [r]) < 20" by auto
      from Cons.prems(1) Inr False
      have "check_motion_loop as (ml @ [r]) = Some (Inr (s, ml')) \<or> ml' = ml @ [r]"
        by (auto simp: Let_def split: if_splits)
      then show ?thesis
      proof
        assume "check_motion_loop as (ml @ [r]) = Some (Inr (s, ml'))"
        from Cons.IH[OF this l] show ?thesis
          by (auto simp: take_Suc_conv_app_nth dest: arg_cong[where f="take (length ml)"])
      next
        assume "ml' = ml @ [r]"
        with l show ?thesis by simp
      qed
    qed
  qed
qed

text \<open>
  What the sampler computes when every answer of the device carries a reading.  While
  the number of samples is between 10 and 19 it looks at the variance of the most recent
  10 and returns the latest reading, which all ten equal, at the first count where it is
  zero.  At the twentieth sample it returns the integer mean of all 20 samples without
  looking at the variance.  Twenty answers are always enough, and no more than 20 samples
  are ever collected.
\<close>

lemma check_motion_protocol:
  assumes "map poll_motion answers = map Inr rs"
  shows "(\<forall>k. 10 \<le> k \<and> k < 20 \<and> k \<le> length rs
              \<and> np_var (last_n 10 (take k rs)) = 0
              \<and> (\<forall>j. 10 \<le> j \<and> j < k \<longrightarrow> np_var (last_n 10 (take j rs)) \<noteq> 0)
            \<longrightarrow> check_motion answers = Some (Inr (rs ! (k - 1), take k rs))
                \<and> (\<forall>x\<in>set (last_n 10 (take k rs)). x = rs ! (k - 1)))
       \<and> (20 \<le> length rs \<and> (\<forall>j. 10 \<le> j \<and> j < 20 \<longrightarrow> np_var (last_n 10 (take j rs)) \<noteq> 0)
            \<longrightarrow> check_motion answers = Some (Inr (int_mean (take 20 rs), take 20 rs)))
       \<and> (20 \<le> length answers
            \<longrightarrow> (\<exists>s ml. check_motion answers = Some (Inr (s, ml)) \<and> length ml \<le> 20))"
proof -
  have stable: "check_motion answers = Some (Inr (rs ! (k - 1), take k rs))
                \<and> (\<forall>x\<in>set (last_n 10 (take k rs)). x = rs ! (k - 1))"
    if k: "10 \<le> k" "k < 20" "k \<le> length rs" and v: "np_var (last_n 10 (take k rs)) = 0"
      and b: "\<forall>j. 10 \<le> j \<and> j < k \<longrightarrow> np_var (last_n 10 (take j rs)) \<noteq> 0" for k
  proof -
    have "check_motion_loop (drop 0 answers) (take 0 rs) =
            Some (Inr (if k = 20 then int_mean (take 20 rs) else rs ! (k - 1), take k rs))"
      using k v b by (intro check_motion_loop_run[OF assms]) auto
    then have 1: "check_motion answers = Some (Inr (rs ! (k - 1), take k rs))"
      using k by (simp add: check_motion_def)
    have ne: "take k rs \<noteq> []" using k by (cases rs) auto
    then have ne': "last_n 10 (take k rs) \<noteq> []" using k by (simp add: last_n_def)
    have "last (take k rs) = take k rs ! (length (take k rs) - 1)" using ne by (rule last_conv_nth)
    also have "\<dots> = rs ! (k - 1)" using k by simp
    finally have "last (last_n 10 (take k rs)) = rs ! (k - 1)" using ne by (simp add: last_last_n)
    with v ne' have "\<forall>x\<in>set (last_n 10 (take k rs)). x = rs ! (k - 1)"
      by (simp add: np_var_zero_iff)
    with 1 show ?thesis by simp
  qed
  have mean: "check_motion answers = Some (Inr (int_mean (take 20 rs), take 20 rs))"
    if l: "20 \<le> length rs" and b: "\<forall>j. 10 \<le> j \<and> j < 20 \<longrightarrow> np_var (last_n 10 (take j rs)) \<noteq> 0"
  proof -
    have "check_motion_loop (drop 0 answers) (take 0 rs) =
            Some (Inr (if (20::nat) = 20 then int_mean (take 20 rs) else rs ! (20 - 1), take 20 rs))"
      using l b by (intro check_motion_loop_run[OF assms]) auto
    then show ?thesis by (simp add: check_motion_def)
  qed
  have bounded: "\<exists>s ml. check_motion answers = Some (Inr (s, ml)) \<and> length ml \<le> 20"
    if l: "20 \<le> length answers"
  proof -
    from assms have len: "length answers = length rs" by (metis length_map)
    let ?P = "\<lambda>k. 10 \<le> k \<and> k < 20 \<and> np_var (last_n 10 (take k rs)) = 0"
    show ?thesis
    proof (cases "\<exists>k. ?P k")
      case True
      define k where "k = (LEAST k. ?P k)"
      from True have Pk: "?P k" unfolding k_def by (rule LeastI_ex)
      have "\<forall>j. 10 \<le> j \<and> j < k \<longrightarrow> np_var (last_n 10 (take j rs)) \<noteq> 0"
      proof (intro allI impI)
        fix j assume j: "10 \<le> j \<and> j < k"
        show "np_var (last_n 10 (take j rs)) \<noteq> 0"
        proof
          assume "np_var (last_n 10 (take j rs)) = 0"
          with j Pk have "?P j" by simp
          then have "k \<le> j" unfolding k_def by (rule Least_le)
          with j show False by simp
        qed
      qed
      with Pk l len have "check_motion answers = Some (Inr (rs ! (k - 1), take k rs))"
        using stable[of k] by simp
      moreover have "length (take k rs) \<le> 20" using Pk by (simp add: min_def)
      ultimately show ?thesis by blast
    next
      case False
      then have "\<forall>j. 10 \<le> j \<and> j < 20 \<longrightarrow> np_var (last_n 10 (take j rs)) \<noteq> 0" by blast
      with l len have "check_motion answers = Some (Inr (int_mean (take 20 rs), take 20 rs))"
        using mean by simp
      moreover have "length (take 20 rs) \<le> 20" by simp
      ultimately show ?thesis by blast
    qed
  qed
  from stable mean bounded show ?thesis by blast
qed

text \<open>Every reading is followed by its print and a sleep of three seconds, also the one
  on which the loop returns.\<close>

lemma check_motion_log_run:
  "check_motion_loop as ml = Some (Inr (s, ml')) \<Longrightarrow>
     check_motion_log as ml = concat (map poll_effects (drop (length ml) ml'))
     \<and> take (length ml) ml' = ml"
proof (induction as arbitrary: ml)
  case Nil
  then show ?case by simp
next
  case (Cons a as)
  show ?case
  proof (cases "poll_motion a")
    case (Inl e)
    with Cons.prems show ?thesis by simp
  next
    case (Inr r)
    let ?ml = "ml @ [r]"
    have rec: "check_motion_log as ?ml = concat (map poll_effects (drop (length ?ml) ml'))
               \<and> take (length ?ml) ml' = ?ml"
      if "check_motion_loop as ?ml = Some (Inr (s, ml'))"
      using that by (rule Cons.IH)
    have fin: "drop (length ml) ml' = [r] \<and> take (length ml) ml' = ml" if "ml' = ?ml"
      using that by simp
    have step: "drop (length ml) ml' = r # drop (length ?ml) ml' \<and> take (length ml) ml' = ml"
      if t: "take (length ?ml) ml' = ?ml"
    proof -
      have "ml' = ?ml @ drop (length ?ml) ml'" using t append_take_drop_id[of "length ?ml" ml'] by simp
      then have e: "ml' = ml @ r # drop (length ?ml) ml'" by simp
      have "drop (length ml) ml' = r # drop (length ?ml) ml'"
        by (subst e) simp
      moreover have "take (length ml) ml' = ml"
        by (subst e) simp
      ultimately show ?thesis by simp
    qed
    consider (short) "length ?ml < sample_range"
      | (cap) "\<not> length ?ml < sample_range" "length ?ml = 20"
      | (stable) "\<not> length ?ml < sample_range" "length ?ml \<noteq> 20"
          "np_var (last_n sample_range ?ml) = 0"
      | (go) "\<not> length ?ml < sample_range" "length ?ml \<noteq> 20"
          "np_var (last_n sample_range ?ml) \<noteq> 0"
      by blast
    then show ?thesis
    proof cases
      case short
      with Inr Cons.prems have "check_motion_loop as ?ml = Some (Inr (s, ml'))"
        by (simp add: Let_def)
      from rec[OF this] step short Inr show ?thesis by (simp add: Let_def)
    next
      case cap
      with Inr Cons.prems have "ml' = ?ml" by (simp add: Let_def)
      from fin[OF this] cap Inr show ?thesis by (simp add: Let_def)
    next
      case stable
      with Inr Cons.prems have "ml' = ?ml" by (simp add: Let_def)
      from fin[OF this] stable Inr show ?thesis by (simp add: Let_def)
    next
      case go
      with Inr Cons.prems have "check_motion_loop as ?ml = Some (Inr (s, ml'))"
        by (simp add: Let_def)
      from rec[OF this] step go Inr show ?thesis by (simp add: Let_def)
    qed
  qed
qed

text \<open>
  C2.  The claim has the sampler return the stable value as soon as the last ten samples
  are equal, and the mean only when they never are.  The code tests the cap of twenty
  samples before it looks at the variance, so it departs from this when the readings
  settle exactly at the twentieth sample: on the readings 0, 1 (five times) and then ten
  times 5 the last ten samples are all 5, their variance is zero, and yet the sampler
  returns 2, the integer mean of the twenty.  Each of the twenty polls is followed by a
  sleep of three seconds.
\<close>

theorem check_motion_settles_at_cap:
  "(let a = ''30s: 0 percent''; b = ''30s: 1 percent''; c = ''30s: 5 percent'';
        answers = [a, b, a, b, a, b, a, b, a, b, c, c, c, c, c, c, c, c, c, c];
        readings = [0, 1, 0, 1, 0, 1, 0, 1, 0, 1, 5, 5, 5, 5, 5, 5, 5, 5, 5, 5]
    in check_motion answers = Some (Inr (2, readings))
       \<and> np_var (last_n 10 readings) = 0
       \<and> last readings = 5
       \<and> check_motion_log answers [] = concat (map poll_effects readings))"
proof -
  let ?a = "''30s: 0 percent''"
  let ?b = "''30s: 1 percent''"
  let ?c = "''30s: 5 percent''"
  let ?answers = "[?a, ?b, ?a, ?b, ?a, ?b, ?a, ?b, ?a, ?b, ?c, ?c, ?c, ?c, ?c, ?c, ?c, ?c, ?c, ?c]"
  let ?readings = "[0, 1, 0, 1, 0, 1, 0, 1, 0, 1, 5, 5, 5, 5, 5, 5, 5, 5, 5, 5 :: int]"
  have 1: "check_motion ?answers = Some (Inr (2, ?readings))" by code_simp
  have 2: "np_var (last_n 10 ?readings) = 0" by code_simp
  have 3: "last ?readings = 5" by simp
  from 1 have "check_motion_loop ?answers [] = Some (Inr (2, ?readings))"
    unfolding check_motion_def .
  from check_motion_log_run[OF this]
  have 4: "check_motion_log ?answers [] = concat (map poll_effects ?readings)"
    by simp
  from 1 2 3 4 show ?thesis unfolding Let_def by (intro conjI)
qed

section \<open>Absent score patterns\<close>

text \<open>
  C3 (as amended).  When the answer to a poll does not contain \<^verbatim>\<open>30s: N percent\<close>,
  \<^verbatim>\<open>check_motion\<close> raises (an \<^verbatim>\<open>AttributeError\<close>) and \<^verbatim>\<open>pscc\<close> does not return.
  \<^verbatim>\<open>check_detail\<close> never raises on the text of the tool: it returns, and the score whose
  pattern is absent keeps the value it had.
\<close>

theorem score_pattern_absent:
  "(\<not> has_motion_pattern t \<longrightarrow>
       check_motion_loop (t # rest) motion_list = Some (Inl AttributeError)
     \<and> snd (pscc wait_time ''motion'' \<lparr>detail_answer = d, ms_answers = t # rest\<rparr> dp)
         = Raised AttributeError)
   \<and> (\<exists>st'. check_detail (Some t) st = Inr st'
         \<and> (\<not> has_detail_pattern ''HighDetail:'' t \<longrightarrow> high_detail st' = high_detail st)
         \<and> (\<not> has_detail_pattern ''LowDetail:'' t \<longrightarrow> low_detail st' = low_detail st))
   \<and> snd (pscc wait_time ''detail'' \<lparr>detail_answer = Some t, ms_answers = m\<rparr> dp) = Returned"
proof -
  have 1: "check_motion_loop (t # rest) motion_list = Some (Inl AttributeError)
     \<and> snd (pscc wait_time ''motion'' \<lparr>detail_answer = d, ms_answers = t # rest\<rparr> dp)
         = Raised AttributeError" if "\<not> has_motion_pattern t"
  proof -
    from that have "search_motion t = None" by (simp add: search_motion_None)
    then have "poll_motion t = Inl AttributeError" by (simp add: poll_motion_def)
    then show ?thesis by (simp add: pscc_def check_motion_def Let_def)
  qed
  have h: "search_high t = None" if "\<not> has_detail_pattern ''HighDetail:'' t"
    using that by (simp add: search_high_def search_detail_None)
  have l: "search_low t = None" if "\<not> has_detail_pattern ''LowDetail:'' t"
    using that by (simp add: search_low_def search_detail_None)
  have 2: "\<exists>st'. check_detail (Some t) st = Inr st'
         \<and> (\<not> has_detail_pattern ''HighDetail:'' t \<longrightarrow> high_detail st' = high_detail st)
         \<and> (\<not> has_detail_pattern ''LowDetail:'' t \<longrightarrow> low_detail st' = low_detail st)"
    using h l by (auto simp: check_detail_def Let_def split: option.splits)
  have 3: "snd (pscc wait_time ''detail'' \<lparr>detail_answer = Some t, ms_answers = m\<rparr> dp) = Returned"
    by (simp add: pscc_def check_detail_def Let_def)
  from 1 2 3 show ?thesis by blast
qed

theorem score_pattern_absent_witness:
  "check_motion_loop [''daemon busy''] [] = Some (Inl AttributeError)
   \<and> check_detail (Some ''daemon busy'') \<lparr>high_detail = Some 60, low_detail = Some 30\<rparr>
       = Inr \<lparr>high_detail = Some 60, low_detail = Some 30\<rparr>"
proof -
  have m: "\<not> has_motion_pattern ''daemon busy''"
    unfolding search_motion_None[symmetric] by code_simp
  have h: "\<not> has_detail_pattern ''HighDetail:'' ''daemon busy''"
    unfolding search_detail_None[symmetric] by code_simp
  have l: "\<not> has_detail_pattern ''LowDetail:'' ''daemon busy''"
    unfolding search_detail_None[symmetric] by code_simp
  from score_pattern_absent[of "''daemon busy''" "[]" "[]" 0 None undefined
      "\<lparr>high_detail = Some 60, low_detail = Some 30\<rparr>" "[]"] m h l
  show ?thesis by (auto simp: detail_scores.equality)
qed

text \<open>
  C3 as stated fails for \<^verbatim>\<open>check_detail\<close>: on an output with neither pattern it returns
  normally and both stored scores stay in place.
\<close>

theorem check_detail_pattern_absent_counterexample:
  "search_high ''detail: cannot open test.png'' = None
   \<and> search_low ''detail: cannot open test.png'' = None
   \<and> check_detail (Some ''detail: cannot open test.png'')
        \<lparr>high_detail = Some 60, low_detail = Some 30\<rparr>
       = Inr \<lparr>high_detail = Some 60, low_detail = Some 30\<rparr>"
  by code_simp

section \<open>The motion-size bisection\<close>

lemma playing_ctl_make_scene:
  "sc_name a = ''scene'' \<Longrightarrow> playing (ctl_make_scene a st) = Some a"
  by (cases "filter (\<lambda>a. sc_name a = ''scene'') (scenes st)")
     (simp_all add: playing_def ctl_make_scene_def)

lemma default_scene_name [simp]: "sc_name (default_scene\<lparr>sc_mo_size := m\<rparr>) = ''scene''"
  by (simp add: default_scene_def)













section \<open>The high-detail search\<close>

lemma hd_scene_name [simp]: "sc_name (hd_scene s) = ''scene''"
  by (simp add: hd_scene_def default_scene_def)

lemma hd_scene_cong:
  "mo_size s = mo_size st \<Longrightarrow> rect1 s = rect1 st \<Longrightarrow> rect2 s = rect2 st \<Longrightarrow>
     hd_scene (s\<lparr>fineness := g\<rparr>) = hd_scene (st\<lparr>fineness := g\<rparr>)"
  by (simp add: hd_scene_def)

lemma hd_scene_fineness [simp]: "sc_fineness (hd_scene s) = fineness s"
  by (simp add: hd_scene_def)

text \<open>One measurement of \<^verbatim>\<open>hd_delta\<close>: set the fineness, assemble the scene, sample.\<close>

lemma hd_measure:
  assumes "mo_size s = mo_size st" "rect1 s = rect1 st" "rect2 s = rect2 st"
  shows "pscc_detail dev (ctl_make_scene (hd_scene (s\<lparr>fineness := g\<rparr>)) (s\<lparr>fineness := g\<rparr>)) =
     s\<lparr>fineness := g,
       self_high_detail := fst (detail_of dev (cycles s) (Some (hd_scene (st\<lparr>fineness := g\<rparr>)))),
       self_low_detail := snd (detail_of dev (cycles s) (Some (hd_scene (st\<lparr>fineness := g\<rparr>)))),
       scenes := scenes s @ [hd_scene (st\<lparr>fineness := g\<rparr>)],
       cycles := Suc (cycles s)\<rparr>"
proof -
  have p: "playing (ctl_make_scene (hd_scene (s\<lparr>fineness := g\<rparr>)) (s\<lparr>fineness := g\<rparr>))
             = Some (hd_scene (s\<lparr>fineness := g\<rparr>))"
    by (rule playing_ctl_make_scene) simp
  show ?thesis
    unfolding pscc_detail_def p
    by (simp add: ctl_make_scene_def hd_scene_cong[OF assms])
qed

lemma hd_descend_run:
  assumes same: "mo_size s = mo_size st" "rect1 s = rect1 st" "rect2 s = rect2 st"
      "high_detail_target s = high_detail_target st"
    and dir: "direction s = dir"
    and e0: "e 0 = delta"
    and e: "\<forall>k. 1 \<le> k \<and> k \<le> K \<longrightarrow>
               e k = hd_reading dev st (cycles s + k - 1) (fineness s + int k * dir)"
    and shrink: "\<forall>k. 1 \<le> k \<and> k < K \<longrightarrow> e k \<le> e (k - 1)"
    and grow: "e K > e (K - 1)"
    and K: "1 \<le> K" "K \<le> n"
  shows "\<exists>s'. hd_descend dev n delta s = Done s'
           \<and> fineness s' = fineness s + (int K - 1) * dir \<and> direction s' = dir
           \<and> scenes s' = scenes s @
                 map (\<lambda>k. hd_scene (st\<lparr>fineness := fineness s + int k * dir\<rparr>)) [1..<Suc K]
           \<and> cycles s' = cycles s + K"
  using same dir e0 e shrink grow K
proof (induction K arbitrary: s delta n e)
  case 0
  then show ?case by simp
next
  case (Suc K)
  from Suc.prems obtain n' where n: "n = Suc n'" by (cases n) auto
  let ?g = "fineness s + dir"
  let ?sc = "hd_scene (st\<lparr>fineness := ?g\<rparr>)"
  let ?s3 = "s\<lparr>fineness := ?g,
       self_high_detail := fst (detail_of dev (cycles s) (Some ?sc)),
       self_low_detail := snd (detail_of dev (cycles s) (Some ?sc)),
       scenes := scenes s @ [?sc],
       cycles := Suc (cycles s)\<rparr>"
  have m: "pscc_detail dev (ctl_make_scene (hd_scene (s\<lparr>fineness := ?g\<rparr>)) (s\<lparr>fineness := ?g\<rparr>)) = ?s3"
    using Suc.prems(1-3) by (rule hd_measure)
  have e1: "e 1 = hd_reading dev st (cycles s) ?g"
    using Suc.prems(7)[rule_format, of 1] by simp
  have d: "\<bar>self_high_detail ?s3 - high_detail_target ?s3\<bar> = e 1"
    unfolding e1 hd_reading_def using Suc.prems(4) by simp
  have step: "hd_descend dev n delta s =
      (if e 1 < delta then hd_descend dev n' (e 1) ?s3
       else if e 1 > delta then Done (?s3\<lparr>fineness := fineness ?s3 + - direction ?s3\<rparr>)
       else hd_descend dev n' (e 1) ?s3)"
    unfolding n hd_descend.simps Let_def Suc.prems(5) m d ..
  show ?case
  proof (cases "K = 0")
    case True
    with Suc.prems(9) Suc.prems(6) have "e 1 > delta" by simp
    with step True Suc.prems(5) show ?thesis by simp
  next
    case False
    then have K1: "1 \<le> K" by simp
    from Suc.prems(8)[rule_format, of 1] False Suc.prems(6) have lt: "e 1 \<le> delta" by simp
    define e' where "e' k = e (Suc k)" for k
    have "\<exists>s'. hd_descend dev n' (e 1) ?s3 = Done s'
           \<and> fineness s' = fineness ?s3 + (int K - 1) * dir \<and> direction s' = dir
           \<and> scenes s' = scenes ?s3 @
                 map (\<lambda>k. hd_scene (st\<lparr>fineness := fineness ?s3 + int k * dir\<rparr>)) [1..<Suc K]
           \<and> cycles s' = cycles ?s3 + K"
    proof (rule Suc.IH[where e = e'])
      show "mo_size ?s3 = mo_size st" "rect1 ?s3 = rect1 st" "rect2 ?s3 = rect2 st"
        "high_detail_target ?s3 = high_detail_target st" "direction ?s3 = dir"
        using Suc.prems(1-5) by simp_all
      show "e' 0 = e 1" by (simp add: e'_def)
      show "\<forall>k. 1 \<le> k \<and> k \<le> K \<longrightarrow>
               e' k = hd_reading dev st (cycles ?s3 + k - 1) (fineness ?s3 + int k * dir)"
      proof (intro allI impI)
        fix k assume k: "1 \<le> k \<and> k \<le> K"
        then have "1 \<le> Suc k \<and> Suc k \<le> Suc K" by simp
        with Suc.prems(7)
        have 1: "e (Suc k) = hd_reading dev st (cycles s + Suc k - 1) (fineness s + int (Suc k) * dir)"
          by blast
        have 2: "cycles s + Suc k - 1 = cycles ?s3 + k - 1" using k by simp
        have 3: "fineness s + int (Suc k) * dir = fineness ?s3 + int k * dir"
          by (simp add: algebra_simps)
        show "e' k = hd_reading dev st (cycles ?s3 + k - 1) (fineness ?s3 + int k * dir)"
          unfolding e'_def 3[symmetric] 2[symmetric] 1 ..
      qed
      show "\<forall>k. 1 \<le> k \<and> k < K \<longrightarrow> e' k \<le> e' (k - 1)"
        using Suc.prems(8)[rule_format, of "Suc k" for k] by (auto simp: e'_def)
      show "e' K > e' (K - 1)"
        using Suc.prems(9) K1 by (simp add: e'_def)
      show "1 \<le> K" by (rule K1)
      show "K \<le> n'" using Suc.prems(11) n by simp
    qed
    then obtain s' where s': "hd_descend dev n' (e 1) ?s3 = Done s'"
        "fineness s' = fineness ?s3 + (int K - 1) * dir" "direction s' = dir"
        "scenes s' = scenes ?s3 @
                 map (\<lambda>k. hd_scene (st\<lparr>fineness := fineness ?s3 + int k * dir\<rparr>)) [1..<Suc K]"
        "cycles s' = cycles ?s3 + K" by blast
    have f: "fineness s' = fineness s + (int (Suc K) - 1) * dir"
      using s'(2) by (simp add: algebra_simps)
    have "map (\<lambda>k. hd_scene (st\<lparr>fineness := fineness s + int k * dir\<rparr>)) [1..<Suc (Suc K)]
        = ?sc # map (\<lambda>k. hd_scene (st\<lparr>fineness := fineness ?s3 + int k * dir\<rparr>)) [1..<Suc K]"
    proof -
      have "[1..<Suc (Suc K)] = 1 # map Suc [1..<Suc K]"
        by (metis One_nat_def map_Suc_upt upt_conv_Cons zero_less_Suc Suc_less_eq)
      then show ?thesis by (simp add: comp_def algebra_simps)
    qed
    then have sc: "scenes s' = scenes s @
        map (\<lambda>k. hd_scene (st\<lparr>fineness := fineness s + int k * dir\<rparr>)) [1..<Suc (Suc K)]"
      using s'(4) by simp
    have c: "cycles s' = cycles s + Suc K" using s'(5) by simp
    from lt have nl: "\<not> delta < e 1" by simp
    have "hd_descend dev n delta s = hd_descend dev n' (e 1) ?s3"
      unfolding step by (simp only: nl if_False if_cancel)
    with s'(1) have "hd_descend dev n delta s = Done s'" by simp
    with f s'(3) sc c show ?thesis by blast
  qed
qed

text \<open>The first loop: \<open>P\<close> probes whose distance equals the initial one, then a probe
  whose distance differs and decides the direction.\<close>

lemma hd_probe_run:
  assumes same: "mo_size s = mo_size st" "rect1 s = rect1 st" "rect2 s = rect2 st"
      "high_detail_target s = high_detail_target st"
    and tie: "\<forall>j. j < P \<longrightarrow> hd_reading dev st (cycles s + j) (fineness s + 1 + int j) = d0"
    and dec: "hd_reading dev st (cycles s + P) (fineness s + 1 + int P) \<noteq> d0"
    and P: "P < n"
  shows "\<exists>s'. hd_probe dev n d0 s =
               Done (s', hd_reading dev st (cycles s + P) (fineness s + 1 + int P))
           \<and> fineness s' = fineness s + 1 + int P
           \<and> direction s' =
               (if hd_reading dev st (cycles s + P) (fineness s + 1 + int P) < d0 then 1 else - 1)
           \<and> scenes s' = scenes s @
                 map (\<lambda>j. hd_scene (st\<lparr>fineness := fineness s + 1 + int j\<rparr>)) [0..<Suc P]
           \<and> cycles s' = cycles s + P + 1
           \<and> mo_size s' = mo_size st \<and> rect1 s' = rect1 st \<and> rect2 s' = rect2 st
           \<and> high_detail_target s' = high_detail_target st"
  using same tie dec P
proof (induction P arbitrary: s n)
  case 0
  from "0.prems" obtain n' where n: "n = Suc n'" by (cases n) auto
  let ?g = "fineness s + 1"
  let ?sc = "hd_scene (st\<lparr>fineness := ?g\<rparr>)"
  let ?s3 = "s\<lparr>fineness := ?g,
       self_high_detail := fst (detail_of dev (cycles s) (Some ?sc)),
       self_low_detail := snd (detail_of dev (cycles s) (Some ?sc)),
       scenes := scenes s @ [?sc],
       cycles := Suc (cycles s)\<rparr>"
  let ?r = "hd_reading dev st (cycles s) ?g"
  have m: "pscc_detail dev (ctl_make_scene (hd_scene (s\<lparr>fineness := ?g\<rparr>)) (s\<lparr>fineness := ?g\<rparr>)) = ?s3"
    using "0.prems"(1-3) by (rule hd_measure)
  have d: "\<bar>self_high_detail ?s3 - high_detail_target ?s3\<bar> = ?r"
    unfolding hd_reading_def using "0.prems"(4) by simp
  have p: "hd_probe dev n d0 s =
      (if ?r > d0 then Done (?s3\<lparr>direction := - 1\<rparr>, ?r)
       else if ?r < d0 then Done (?s3\<lparr>direction := 1\<rparr>, ?r)
       else hd_probe dev n' d0 ?s3)"
    unfolding n hd_probe.simps Let_def m d ..
  from "0.prems"(6) have ne: "?r \<noteq> d0" by simp
  show ?case
  proof (cases "?r < d0")
    case True
    with p have "hd_probe dev n d0 s = Done (?s3\<lparr>direction := 1\<rparr>, ?r)" by simp
    with True "0.prems"(1-4) show ?thesis by simp
  next
    case False
    with ne have "?r > d0" by simp
    with p have "hd_probe dev n d0 s = Done (?s3\<lparr>direction := - 1\<rparr>, ?r)" by simp
    with False "0.prems"(1-4) show ?thesis by simp
  qed
next
  case (Suc P)
  from Suc.prems obtain n' where n: "n = Suc n'" by (cases n) auto
  let ?g = "fineness s + 1"
  let ?sc = "hd_scene (st\<lparr>fineness := ?g\<rparr>)"
  let ?s3 = "s\<lparr>fineness := ?g,
       self_high_detail := fst (detail_of dev (cycles s) (Some ?sc)),
       self_low_detail := snd (detail_of dev (cycles s) (Some ?sc)),
       scenes := scenes s @ [?sc],
       cycles := Suc (cycles s)\<rparr>"
  let ?r = "hd_reading dev st (cycles s) ?g"
  let ?R = "hd_reading dev st (cycles s + Suc P) (fineness s + 1 + int (Suc P))"
  have m: "pscc_detail dev (ctl_make_scene (hd_scene (s\<lparr>fineness := ?g\<rparr>)) (s\<lparr>fineness := ?g\<rparr>)) = ?s3"
    using Suc.prems(1-3) by (rule hd_measure)
  have d: "\<bar>self_high_detail ?s3 - high_detail_target ?s3\<bar> = ?r"
    unfolding hd_reading_def using Suc.prems(4) by simp
  have p: "hd_probe dev n d0 s =
      (if ?r > d0 then Done (?s3\<lparr>direction := - 1\<rparr>, ?r)
       else if ?r < d0 then Done (?s3\<lparr>direction := 1\<rparr>, ?r)
       else hd_probe dev n' d0 ?s3)"
    unfolding n hd_probe.simps Let_def m d ..
  from Suc.prems(5)[rule_format, of 0] have eq: "?r = d0" by simp
  have c: "cycles ?s3 + P = cycles s + Suc P" by simp
  have f: "fineness ?s3 + 1 + int P = fineness s + 1 + int (Suc P)" by simp
  have "\<exists>s'. hd_probe dev n' d0 ?s3 =
               Done (s', hd_reading dev st (cycles ?s3 + P) (fineness ?s3 + 1 + int P))
           \<and> fineness s' = fineness ?s3 + 1 + int P
           \<and> direction s' =
               (if hd_reading dev st (cycles ?s3 + P) (fineness ?s3 + 1 + int P) < d0 then 1 else - 1)
           \<and> scenes s' = scenes ?s3 @
                 map (\<lambda>j. hd_scene (st\<lparr>fineness := fineness ?s3 + 1 + int j\<rparr>)) [0..<Suc P]
           \<and> cycles s' = cycles ?s3 + P + 1
           \<and> mo_size s' = mo_size st \<and> rect1 s' = rect1 st \<and> rect2 s' = rect2 st
           \<and> high_detail_target s' = high_detail_target st"
  proof (rule Suc.IH)
    show "mo_size ?s3 = mo_size st" "rect1 ?s3 = rect1 st" "rect2 ?s3 = rect2 st"
        "high_detail_target ?s3 = high_detail_target st"
      using Suc.prems(1-4) by simp_all
    show "\<forall>j. j < P \<longrightarrow> hd_reading dev st (cycles ?s3 + j) (fineness ?s3 + 1 + int j) = d0"
    proof (intro allI impI)
      fix j assume "j < P"
      then have "Suc j < Suc P" by simp
      with Suc.prems(5)
      have "hd_reading dev st (cycles s + Suc j) (fineness s + 1 + int (Suc j)) = d0" by blast
      moreover have "cycles ?s3 + j = cycles s + Suc j" by simp
      moreover have "fineness ?s3 + 1 + int j = fineness s + 1 + int (Suc j)" by simp
      ultimately show "hd_reading dev st (cycles ?s3 + j) (fineness ?s3 + 1 + int j) = d0"
        by (simp only:)
    qed
    show "hd_reading dev st (cycles ?s3 + P) (fineness ?s3 + 1 + int P) \<noteq> d0"
      unfolding c f by (rule Suc.prems(6))
    show "P < n'" using Suc.prems(7) n by simp
  qed
  then obtain s' where s': "hd_probe dev n' d0 ?s3 = Done (s', ?R)"
      "fineness s' = fineness s + 1 + int (Suc P)"
      "direction s' = (if ?R < d0 then 1 else - 1)"
      "scenes s' = scenes ?s3 @
         map (\<lambda>j. hd_scene (st\<lparr>fineness := fineness ?s3 + 1 + int j\<rparr>)) [0..<Suc P]"
      "cycles s' = cycles ?s3 + P + 1"
      "mo_size s' = mo_size st" "rect1 s' = rect1 st" "rect2 s' = rect2 st"
      "high_detail_target s' = high_detail_target st"
    unfolding c f by blast
  have "map (\<lambda>j. hd_scene (st\<lparr>fineness := fineness s + 1 + int j\<rparr>)) [0..<Suc (Suc P)]
        = ?sc # map (\<lambda>j. hd_scene (st\<lparr>fineness := fineness ?s3 + 1 + int j\<rparr>)) [0..<Suc P]"
  proof -
    have u: "[0..<Suc (Suc P)] = 0 # map Suc [0..<Suc P]"
      by (simp only: map_Suc_upt upt_conv_Cons[of 0 "Suc (Suc P)"] zero_less_Suc)
    show ?thesis unfolding u by (simp add: comp_def algebra_simps del: upt_Suc)
  qed
  then have sc: "scenes s' = scenes s @
        map (\<lambda>j. hd_scene (st\<lparr>fineness := fineness s + 1 + int j\<rparr>)) [0..<Suc (Suc P)]"
    using s'(4) by simp
  have cy: "cycles s' = cycles s + Suc P + 1" using s'(5) by simp
  from p eq s'(1) have "hd_probe dev n d0 s = Done (s', ?R)" by simp
  with s'(2,3) sc cy s'(6-9) show ?case by blast
qed

text \<open>The two loops together: the whole search, ties included.\<close>

lemma hd_delta_run:
  assumes d0: "d0 = \<bar>self_high_detail st - high_detail_target st\<bar>"
    and tie: "\<forall>j. j < P \<longrightarrow> hd_reading dev st (cycles st + j) (fineness st + 1 + int j) = d0"
    and g: "g = fineness st + 1 + int P"
    and D: "D = (\<lambda>k. hd_reading dev st (cycles st + P + k) (g + int k * dir))"
    and probe: "D 0 \<noteq> d0"
    and dir: "dir = (if D 0 < d0 then 1 else - 1)"
    and shrink: "\<forall>k. 1 \<le> k \<and> k < K \<longrightarrow> D k \<le> D (k - 1)"
    and grow: "D K > D (K - 1)"
    and K: "1 \<le> K" "K \<le> n"
    and P: "P < n"
  shows "\<exists>s'. hd_delta dev n st = Done s'
           \<and> direction s' = dir
           \<and> fineness s' = g + (int K - 1) * dir
           \<and> map sc_fineness (new_scenes st s')
                = map (\<lambda>j. fineness st + 1 + int j) [0..<Suc P]
                  @ map (\<lambda>k. g + int k * dir) [1..<Suc K]
           \<and> cycles s' = cycles st + P + K + 1"
proof -
  have D0: "D 0 = hd_reading dev st (cycles st + P) g"
    by (simp add: D)
  have "\<exists>sp. hd_probe dev n d0 st =
               Done (sp, hd_reading dev st (cycles st + P) (fineness st + 1 + int P))
           \<and> fineness sp = fineness st + 1 + int P
           \<and> direction sp =
               (if hd_reading dev st (cycles st + P) (fineness st + 1 + int P) < d0 then 1 else - 1)
           \<and> scenes sp = scenes st @
                 map (\<lambda>j. hd_scene (st\<lparr>fineness := fineness st + 1 + int j\<rparr>)) [0..<Suc P]
           \<and> cycles sp = cycles st + P + 1
           \<and> mo_size sp = mo_size st \<and> rect1 sp = rect1 st \<and> rect2 sp = rect2 st
           \<and> high_detail_target sp = high_detail_target st"
  proof (rule hd_probe_run)
    show "mo_size st = mo_size st" "rect1 st = rect1 st" "rect2 st = rect2 st"
      "high_detail_target st = high_detail_target st" by simp_all
    show "\<forall>j. j < P \<longrightarrow> hd_reading dev st (cycles st + j) (fineness st + 1 + int j) = d0"
      by (rule tie)
    show "hd_reading dev st (cycles st + P) (fineness st + 1 + int P) \<noteq> d0"
      using probe unfolding D0 g .
    show "P < n" by (rule P)
  qed
  then obtain sp where sp: "hd_probe dev n d0 st = Done (sp, D 0)"
      "fineness sp = g" "direction sp = dir"
      "scenes sp = scenes st @
         map (\<lambda>j. hd_scene (st\<lparr>fineness := fineness st + 1 + int j\<rparr>)) [0..<Suc P]"
      "cycles sp = cycles st + P + 1"
      "mo_size sp = mo_size st" "rect1 sp = rect1 st" "rect2 sp = rect2 st"
      "high_detail_target sp = high_detail_target st"
    unfolding g[symmetric] D0[symmetric] dir[symmetric] by blast
  have "\<exists>s'. hd_descend dev n (D 0) sp = Done s'
           \<and> fineness s' = fineness sp + (int K - 1) * dir \<and> direction s' = dir
           \<and> scenes s' = scenes sp @
                 map (\<lambda>k. hd_scene (st\<lparr>fineness := fineness sp + int k * dir\<rparr>)) [1..<Suc K]
           \<and> cycles s' = cycles sp + K"
  proof (rule hd_descend_run[where e = D])
    show "mo_size sp = mo_size st" "rect1 sp = rect1 st" "rect2 sp = rect2 st"
      "high_detail_target sp = high_detail_target st" "direction sp = dir"
      by (rule sp)+
    show "D 0 = D 0" ..
    show "\<forall>k. 1 \<le> k \<and> k \<le> K \<longrightarrow>
            D k = hd_reading dev st (cycles sp + k - 1) (fineness sp + int k * dir)"
      unfolding sp(2) sp(5) by (simp add: D)
    show "\<forall>k. 1 \<le> k \<and> k < K \<longrightarrow> D k \<le> D (k - 1)" by (rule shrink)
    show "D K > D (K - 1)" by (rule grow)
    show "1 \<le> K" "K \<le> n" by (rule K)+
  qed
  then obtain s' where s': "hd_descend dev n (D 0) sp = Done s'"
      "fineness s' = g + (int K - 1) * dir" "direction s' = dir"
      "scenes s' = scenes sp @
         map (\<lambda>k. hd_scene (st\<lparr>fineness := g + int k * dir\<rparr>)) [1..<Suc K]"
      "cycles s' = cycles sp + K"
    unfolding sp(2) by blast
  have 1: "hd_delta dev n st = Done s'"
    unfolding hd_delta_def Let_def d0[symmetric] sp(1) using s'(1) by simp
  have "new_scenes st s' =
      map (\<lambda>j. hd_scene (st\<lparr>fineness := fineness st + 1 + int j\<rparr>)) [0..<Suc P]
      @ map (\<lambda>k. hd_scene (st\<lparr>fineness := g + int k * dir\<rparr>)) [1..<Suc K]"
    unfolding new_scenes_def s'(4) sp(4) by simp
  then have 3: "map sc_fineness (new_scenes st s')
                = map (\<lambda>j. fineness st + 1 + int j) [0..<Suc P]
                  @ map (\<lambda>k. g + int k * dir) [1..<Suc K]"
    by (simp add: comp_def del: upt_Suc)
  have 4: "cycles s' = cycles st + P + K + 1" using s'(5) sp(5) by simp
  from 1 s'(3) s'(2) 3 4 show ?thesis by blast
qed

lemma mock_hd_reading:
  "hd_reading mock_device st k g = \<bar>mock_high g - high_detail_target st\<bar>"
  by (simp add: hd_reading_def mock_device_def)

text \<open>
  C5 (as amended).  \<^verbatim>\<open>hd_delta\<close> starts from the current fineness and probes the fineness
  one higher.  While the probe's distance to the target equals the initial distance \<open>d0\<close>
  it probes again, each time with the fineness one higher; \<open>P\<close> counts these repeated
  probes.  The first probe whose distance differs from \<open>d0\<close>, at the fineness \<open>g\<close>, fixes the
  direction: \<open>+1\<close> if the distance shrank, \<open>-1\<close> if it grew.  Let \<open>D k\<close> be the distance
  measured \<open>k\<close> steps after that probe.  The fineness is then stepped in the direction while
  the distance does not grow, also when it stays the same; at the first step \<open>K\<close> where it
  grows the fineness is stepped back by one, so the fineness of step \<open>K - 1\<close> is final,
  and the search stops.  The case \<open>P = 0\<close> with a distance that shrinks at every step
  before \<open>K\<close> is the search without ties.
\<close>

theorem hd_delta_search:
  assumes d0: "d0 = \<bar>self_high_detail st - high_detail_target st\<bar>"
    and tie: "\<forall>j. j < P \<longrightarrow> hd_reading dev st (cycles st + j) (fineness st + 1 + int j) = d0"
    and g: "g = fineness st + 1 + int P"
    and D: "D = (\<lambda>k. hd_reading dev st (cycles st + P + k) (g + int k * dir))"
    and probe: "D 0 \<noteq> d0"
    and dir: "dir = (if D 0 < d0 then 1 else - 1)"
    and shrink: "\<forall>k. 1 \<le> k \<and> k < K \<longrightarrow> D k \<le> D (k - 1)"
    and grow: "D K > D (K - 1)"
    and K: "1 \<le> K" "K \<le> n"
    and P: "P < n"
  shows "\<exists>s'. hd_delta dev n st = Done s'
           \<and> direction s' = dir
           \<and> fineness s' = g + (int K - 1) * dir
           \<and> map sc_fineness (new_scenes st s')
                = map (\<lambda>j. fineness st + 1 + int j) [0..<Suc P]
                  @ map (\<lambda>k. g + int k * dir) [1..<Suc K]
           \<and> cycles s' = cycles st + P + K + 1"
  using assms by (rule hd_delta_run)

theorem hd_delta_search_witness:
  "\<exists>s'. hd_delta mock_device 3
            ((scenario_start 2 30 30 5)\<lparr>fineness := 10, self_high_detail := 24\<rparr>) = Done s'
       \<and> direction s' = 1 \<and> fineness s' = 13
       \<and> map sc_fineness
            (new_scenes ((scenario_start 2 30 30 5)\<lparr>fineness := 10, self_high_detail := 24\<rparr>) s')
            = [11, 12, 13, 14]
       \<and> cycles s' = 4"
proof -
  let ?st = "(scenario_start 2 30 30 5)\<lparr>fineness := 10, self_high_detail := 24\<rparr>"
  define D where "D = (\<lambda>k. hd_reading mock_device ?st (cycles ?st + 1 + k) (12 + int k * 1))"
  have sel: "cycles ?st = 0" "fineness ?st = 10" "high_detail_target ?st = 30"
      "self_high_detail ?st = 24"
    by (simp_all add: scenario_start_def fresh_controller_def)
  have Dk: "D k = \<bar>mock_high (12 + int k) - 30\<bar>" for k
    unfolding D_def mock_hd_reading sel by simp
  have v: "mock_high 11 = 36" "mock_high 12 = 30" "mock_high 13 = 30" "mock_high 14 = 24"
    by (simp_all add: mock_high_def)
  have D0: "D 0 = 0" and D1: "D 1 = 0" and D2: "D 2 = 6"
    using v by (simp_all add: Dk)
  have 1: "(6::int) = \<bar>self_high_detail ?st - high_detail_target ?st\<bar>" unfolding sel by simp
  have 2: "\<forall>j. j < 1 \<longrightarrow> hd_reading mock_device ?st (cycles ?st + j) (fineness ?st + 1 + int j) = 6"
    unfolding mock_hd_reading sel using v by simp
  have 3: "(12::int) = fineness ?st + 1 + int 1" unfolding sel by simp
  have 4: "D = (\<lambda>k. hd_reading mock_device ?st (cycles ?st + 1 + k) (12 + int k * 1))"
    by (rule D_def)
  have 5: "D 0 \<noteq> 6" by (simp add: D0)
  have 6: "(1::int) = (if D 0 < 6 then 1 else - 1)" by (simp add: D0)
  have 7: "\<forall>k. 1 \<le> k \<and> k < 2 \<longrightarrow> D k \<le> D (k - 1)"
  proof (intro allI impI)
    fix k :: nat assume "1 \<le> k \<and> k < 2"
    then have "k = 1" by auto
    then show "D k \<le> D (k - 1)" unfolding Dk using v by simp
  qed
  have 8: "D 2 > D (2 - 1)" unfolding Dk using v by simp
  have 9: "(1::nat) \<le> 2" "(2::nat) \<le> 3" "(1::nat) < 3" by simp_all
  from hd_delta_search[OF 1 2 3 4 5 6 7 8 9]
  obtain s' where s': "hd_delta mock_device 3 ?st = Done s'
      \<and> direction s' = 1
      \<and> fineness s' = 12 + (int 2 - 1) * 1
      \<and> map sc_fineness (new_scenes ?st s')
           = map (\<lambda>j. fineness ?st + 1 + int j) [0..<Suc 1] @ map (\<lambda>k. 12 + int k * 1) [1..<Suc 2]
      \<and> cycles s' = cycles ?st + 1 + 2 + 1" by (rule exE)
  have a: "fineness s' = 13" using s' by simp
  have u: "[0..<Suc 1] = [0, 1]" "[1..<Suc 2] = [1, 2]" by code_simp+
  have b: "map sc_fineness (new_scenes ?st s') = [11, 12, 13, 14]"
    using s' unfolding sel u by simp
  have c: "cycles s' = 4" using s' unfolding sel by simp
  from s' a b c show ?thesis by (intro exI[of _ s'] conjI) simp_all
qed

text \<open>
  C5 as stated, with one probe and a distance that either shrinks or grows, fails on
  ties.  With the initial distance 6, the probe at fineness 10 measures 6 again, so it
  fixes no direction; the code probes at 11 and at 12 before the distance shrinks.  At
  fineness 13 the distance equals the one at 12, so it has not shrunk, and the code
  steps on to 14, where it grows.  Five scenes are played, and the final fineness is 13.
\<close>

theorem hd_delta_tie_counterexample:
  "hd_reading mock_device ((scenario_start 2 30 30 5)\<lparr>self_high_detail := 24\<rparr>) 0 10
      = \<bar>self_high_detail ((scenario_start 2 30 30 5)\<lparr>self_high_detail := 24\<rparr>)
          - high_detail_target ((scenario_start 2 30 30 5)\<lparr>self_high_detail := 24\<rparr>)\<bar>
   \<and> hd_reading mock_device ((scenario_start 2 30 30 5)\<lparr>self_high_detail := 24\<rparr>) 3 13
      = hd_reading mock_device ((scenario_start 2 30 30 5)\<lparr>self_high_detail := 24\<rparr>) 2 12
   \<and> (\<exists>s'. hd_delta mock_device 3 ((scenario_start 2 30 30 5)\<lparr>self_high_detail := 24\<rparr>) = Done s'
         \<and> direction s' = 1 \<and> fineness s' = 13
         \<and> map sc_fineness (new_scenes ((scenario_start 2 30 30 5)\<lparr>self_high_detail := 24\<rparr>) s')
              = [10, 11, 12, 13, 14]
         \<and> cycles s' = 5)"
proof -
  let ?st = "(scenario_start 2 30 30 5)\<lparr>self_high_detail := 24\<rparr>"
  define D where "D = (\<lambda>k. hd_reading mock_device ?st (cycles ?st + 2 + k) (12 + int k * 1))"
  have sel: "cycles ?st = 0" "fineness ?st = 9" "high_detail_target ?st = 30"
      "self_high_detail ?st = 24"
    by (simp_all add: scenario_start_def fresh_controller_def)
  have Dk: "D k = \<bar>mock_high (12 + int k) - 30\<bar>" for k
    unfolding D_def mock_hd_reading sel by simp
  have v: "mock_high 10 = 36" "mock_high 11 = 36" "mock_high 12 = 30" "mock_high 13 = 30"
      "mock_high 14 = 24"
    by (simp_all add: mock_high_def)
  have D0: "D 0 = 0" and D1: "D 1 = 0" and D2: "D 2 = 6"
    using v by (simp_all add: Dk)
  have t1: "hd_reading mock_device ?st 0 10 = \<bar>self_high_detail ?st - high_detail_target ?st\<bar>"
    unfolding mock_hd_reading sel v by simp
  have t2: "hd_reading mock_device ?st 3 13 = hd_reading mock_device ?st 2 12"
    unfolding mock_hd_reading sel v by simp
  have 1: "(6::int) = \<bar>self_high_detail ?st - high_detail_target ?st\<bar>" unfolding sel by simp
  have 2: "\<forall>j. j < 2 \<longrightarrow> hd_reading mock_device ?st (cycles ?st + j) (fineness ?st + 1 + int j) = 6"
  proof (intro allI impI)
    fix j :: nat assume "j < 2"
    then have "j = 0 \<or> j = 1" by auto
    then show "hd_reading mock_device ?st (cycles ?st + j) (fineness ?st + 1 + int j) = 6"
      unfolding mock_hd_reading sel using v by auto
  qed
  have 3: "(12::int) = fineness ?st + 1 + int 2" unfolding sel by simp
  have 4: "D = (\<lambda>k. hd_reading mock_device ?st (cycles ?st + 2 + k) (12 + int k * 1))"
    by (rule D_def)
  have 5: "D 0 \<noteq> 6" by (simp add: D0)
  have 6: "(1::int) = (if D 0 < 6 then 1 else - 1)" by (simp add: D0)
  have 7: "\<forall>k. 1 \<le> k \<and> k < 2 \<longrightarrow> D k \<le> D (k - 1)"
  proof (intro allI impI)
    fix k :: nat assume "1 \<le> k \<and> k < 2"
    then have "k = 1" by auto
    then show "D k \<le> D (k - 1)" unfolding Dk using v by simp
  qed
  have 8: "D 2 > D (2 - 1)" unfolding Dk using v by simp
  have 9: "(1::nat) \<le> 2" "(2::nat) \<le> 3" "(2::nat) < 3" by simp_all
  from hd_delta_run[OF 1 2 3 4 5 6 7 8 9]
  obtain s' where s': "hd_delta mock_device 3 ?st = Done s'
      \<and> direction s' = 1
      \<and> fineness s' = 12 + (int 2 - 1) * 1
      \<and> map sc_fineness (new_scenes ?st s')
           = map (\<lambda>j. fineness ?st + 1 + int j) [0..<Suc 2] @ map (\<lambda>k. 12 + int k * 1) [1..<Suc 2]
      \<and> cycles s' = cycles ?st + 2 + 2 + 1" by (rule exE)
  have a: "fineness s' = 13" using s' by simp
  have u: "[0..<Suc 2] = [0, 1, 2]" "[1..<Suc 2] = [1, 2]" by code_simp+
  have b: "map sc_fineness (new_scenes ?st s') = [10, 11, 12, 13, 14]"
    using s' unfolding sel u by simp
  have c: "cycles s' = 5" using s' unfolding sel by simp
  from s' a b c have "\<exists>s'. hd_delta mock_device 3 ?st = Done s'
         \<and> direction s' = 1 \<and> fineness s' = 13
         \<and> map sc_fineness (new_scenes ?st s') = [10, 11, 12, 13, 14]
         \<and> cycles s' = 5"
    by (intro exI[of _ s'] conjI) simp_all
  with t1 t2 show ?thesis by (intro conjI)
qed

section \<open>The low-detail rectangle search\<close>

lemma ld_scene_name [simp]: "sc_name (ld_scene st l1 l2) = ''scene''"
  by (simp add: ld_scene_def)



lemma ld_inv_hd_scene:
  "ld_inv st s l1 l2 \<Longrightarrow>
     hd_scene (s\<lparr>rects := rs, rect1 := sc_rect1 (ld_scene st m1 m2), rect2 := sc_rect2 (ld_scene st m1 m2)\<rparr>)
       = ld_scene st m1 m2"
  by (simp add: ld_inv_def hd_scene_def ld_scene_def default_scene_def)






















section \<open>The rectangles and the bounding circle\<close>







section \<open>Scene assembly\<close>

lemma frame_calls_eq:
  "frame_calls =
     [(0, ''0''), (9, ''1''), (18, ''2''), (27, ''3''), (36, ''4''), (45, ''5''), (54, ''6''),
      (63, ''7''), (72, ''8''), (81, ''9''), (90, ''10''), (99, ''11''), (108, ''12''),
      (117, ''13''), (126, ''14''), (135, ''15''), (144, ''16''), (153, ''17''), (162, ''18''),
      (171, ''19''), (180, ''20'')]"
  by code_simp

lemma frame_calls_upt: "frame_calls = map (\<lambda>k. (9 * int k, str_nat k)) [0..<21]"
  unfolding frame_calls_eq by code_simp

lemma loop_cmd_text:
  "loop_cmd filepath name =
     ''ffmpeg -t 03:00 -loglevel fatal -y -stream_loop 1000 -i '' @ [dquote] @ filepath @
     [backslash] @ ''bw_frames'' @ [backslash] @ ''video.mp4'' @ [dquote] @ '' -c copy '' @
     [dquote] @ filepath @ [backslash] @ ''bw_frames'' @ [backslash] @ name @ ''.mp4'' @ [dquote]"
proof -
  have 1: "mmss trim_seconds = ''03:00''" by code_simp
  have 2: "str_nat stream_loop = ''1000''" by code_simp
  show ?thesis unfolding loop_cmd_def 1 2 frames_file_def by simp
qed

text \<open>
  C6.  \<^verbatim>\<open>make_scene\<close> renders 21 frames, for the angles 0, 9, \<dots>, 180 in ascending order
  with the labels 0 to 20, encodes them at 50 frames per second, and then runs the
  encoder again with \<^verbatim>\<open>-stream_loop 1000\<close> and \<^verbatim>\<open>-t 03:00\<close> to write the clip named after the
  scene; 1001 plays of 21 frames at 50 frames per second last longer than the three
  minutes to which the clip is trimmed.
\<close>

theorem make_scene_assembly:
  "frame_calls = map (\<lambda>k. (9 * int k, str_nat k)) [0..<21]
   \<and> length frame_calls = 21
   \<and> frame_calls =
        [(0, ''0''), (9, ''1''), (18, ''2''), (27, ''3''), (36, ''4''), (45, ''5''), (54, ''6''),
         (63, ''7''), (72, ''8''), (81, ''9''), (90, ''10''), (99, ''11''), (108, ''12''),
         (117, ''13''), (126, ''14''), (135, ''15''), (144, ''16''), (153, ''17''), (162, ''18''),
         (171, ''19''), (180, ''20'')]
   \<and> make_scene filepath a =
        map (\<lambda>(i, label). WritePng (frames_file filepath (label @ ''.png''))
                             (make_frame a (of_int i))) frame_calls @
        [Encode \<lparr>enc_input = frames_file filepath ''%d.png'', enc_framerate = 50,
                 enc_output = frames_file filepath ''video.mp4'', enc_pix_fmt = ''yuv420p''\<rparr>,
         Run (loop_cmd filepath (sc_name a))]
   \<and> loop_cmd filepath (sc_name a) =
        ''ffmpeg -t 03:00 -loglevel fatal -y -stream_loop 1000 -i '' @ [dquote] @ filepath @
        [backslash] @ ''bw_frames'' @ [backslash] @ ''video.mp4'' @ [dquote] @ '' -c copy '' @
        [dquote] @ filepath @ [backslash] @ ''bw_frames'' @ [backslash] @ sc_name a @ ''.mp4'' @
        [dquote]
   \<and> 1000 \<le> stream_loop \<and> trim_seconds = 3 * 60
   \<and> (of_nat trim_seconds :: rat)
        \<le> of_nat (length frame_calls) / of_nat framerate * of_nat (stream_loop + 1)"
proof -
  have 1: "length frame_calls = 21" unfolding frame_calls_eq by simp
  have 4: "make_scene filepath a =
        map (\<lambda>(i, label). WritePng (frames_file filepath (label @ ''.png''))
                             (make_frame a (of_int i))) frame_calls @
        [Encode \<lparr>enc_input = frames_file filepath ''%d.png'', enc_framerate = 50,
                 enc_output = frames_file filepath ''video.mp4'', enc_pix_fmt = ''yuv420p''\<rparr>,
         Run (loop_cmd filepath (sc_name a))]"
    unfolding make_scene_def framerate_def ..
  have 5: "(1000::nat) \<le> stream_loop" "trim_seconds = 3 * 60"
    by (simp_all add: stream_loop_def trim_seconds_def)
  have 6: "(of_nat trim_seconds :: rat)
        \<le> of_nat (length frame_calls) / of_nat framerate * of_nat (stream_loop + 1)"
    unfolding 1 by (simp add: stream_loop_def trim_seconds_def framerate_def)
  from frame_calls_upt 1 frame_calls_eq 4 loop_cmd_text[of filepath "sc_name a"] 5 6 show ?thesis
    by (intro conjI)
qed

section \<open>The file that is played\<close>

lemma frames_file_inj: "frames_file fp f = frames_file fp g \<longleftrightarrow> f = g"
  by (simp add: frames_file_def)

lemma playing_ctl_make_scene_other:
  "sc_name a \<noteq> ''scene'' \<Longrightarrow> playing (ctl_make_scene a st) = playing st"
  by (simp add: playing_def ctl_make_scene_def)

text \<open>
  C10.  \<^verbatim>\<open>play_scene\<close> has no file argument: its command names \<^verbatim>\<open>bw_frames\scene.mp4\<close>
  under the working directory.  Every \<^verbatim>\<open>pscc\<close> call, whatever its arguments and whatever
  the device answers, first starts that command and sleeps.  \<^verbatim>\<open>make_scene\<close> writes its clip
  to \<^verbatim>\<open>bw_frames\<close> under the scene's name, which is the played file only for the name
  \<^verbatim>\<open>scene\<close>; the names of the three final scenes differ from it, so assembling a scene
  under such a name leaves the scene that is played and sampled unchanged.
\<close>

theorem pscc_plays_scene_mp4:
  "play_scene filepath =
     Popen (''ffplay -fs -loglevel fatal -autoexit '' @ [dquote] @ filepath @ [backslash] @
            ''bw_frames'' @ [backslash] @ ''scene.mp4'' @ [dquote])
   \<and> (\<exists>rest. dp_log (fst (pscc wait_time parameter pr st)) =
          dp_log st @ play_scene (dp_filepath st) # Sleep wait_time # rest)
   \<and> last (make_scene filepath a) = Run (loop_cmd filepath (sc_name a))
   \<and> loop_cmd filepath (sc_name a) =
        ''ffmpeg -t 03:00 -loglevel fatal -y -stream_loop 1000 -i '' @ [dquote] @
        frames_file filepath ''video.mp4'' @ [dquote] @ '' -c copy '' @ [dquote] @
        frames_file filepath (sc_name a @ ''.mp4'') @ [dquote]
   \<and> (frames_file filepath (sc_name a @ ''.mp4'') = frames_file filepath ''scene.mp4''
        \<longleftrightarrow> sc_name a = ''scene'')
   \<and> high_name mt \<noteq> ''scene'' \<and> low_name mt \<noteq> ''scene''
   \<and> medium_name mt \<noteq> ''scene''
   \<and> playing (ctl_make_scene a c) = (if sc_name a = ''scene'' then Some a else playing c)"
proof -
  have 1: "play_scene filepath =
     Popen (''ffplay -fs -loglevel fatal -autoexit '' @ [dquote] @ filepath @ [backslash] @
            ''bw_frames'' @ [backslash] @ ''scene.mp4'' @ [dquote])"
    by (simp add: play_scene_def frames_file_def)
  have 2: "\<exists>rest. dp_log (fst (pscc wait_time parameter pr st)) =
          dp_log st @ play_scene (dp_filepath st) # Sleep wait_time # rest"
    by (auto simp: pscc_def Let_def split: sum.splits option.splits prod.splits)
  have 3: "last (make_scene filepath a) = Run (loop_cmd filepath (sc_name a))"
    by (simp add: make_scene_def)
  have t1: "mmss trim_seconds = ''03:00''" by code_simp
  have t2: "str_nat stream_loop = ''1000''" by code_simp
  have 4: "loop_cmd filepath (sc_name a) =
        ''ffmpeg -t 03:00 -loglevel fatal -y -stream_loop 1000 -i '' @ [dquote] @
        frames_file filepath ''video.mp4'' @ [dquote] @ '' -c copy '' @ [dquote] @
        frames_file filepath (sc_name a @ ''.mp4'') @ [dquote]"
    unfolding loop_cmd_def t1 t2 by simp
  have 5: "frames_file filepath (sc_name a @ ''.mp4'') = frames_file filepath ''scene.mp4''
        \<longleftrightarrow> sc_name a = ''scene''"
    unfolding frames_file_inj by auto
  have 6: "high_name mt \<noteq> ''scene''" "low_name mt \<noteq> ''scene''"
    "medium_name mt \<noteq> ''scene''"
    by (simp_all add: high_name_def low_name_def medium_name_def)
  have 7: "playing (ctl_make_scene a c) = (if sc_name a = ''scene'' then Some a else playing c)"
    by (simp add: playing_ctl_make_scene playing_ctl_make_scene_other)
  from 1 2 3 4 5 6 7 show ?thesis by (intro conjI)
qed

section \<open>A rectangle of zero size\<close>

lemma in_rect_zero: "in_rect 0 0 0 0 p = False"
  by (simp add: in_rect_def)

lemma draw_rect_zero:
  "cur_path ctx = (\<lambda>p. False) \<Longrightarrow>
     draw_rect zero_rect color ctx = ctx\<lparr>source := (\<lambda>p. (fst color, fst (snd color), snd (snd color), 1))\<rparr>"
  by (simp add: draw_rect_def zero_rect_def cairo_rectangle_def set_source_rgb_def cairo_fill_def
        in_rect_zero)

lemma cur_path_fill [simp]: "cur_path (cairo_fill ctx) = (\<lambda>p. False)"
  by (simp add: cairo_fill_def)

lemma cur_path_background [simp]: "cur_path (draw_background a) = (\<lambda>p. False)"
  by (simp add: draw_background_def Let_def)

lemma draw_motion_object_source:
  "surface (draw_motion_object a theta (ctx\<lparr>source := s\<rparr>)) = surface (draw_motion_object a theta ctx)"
  by (simp add: draw_motion_object_def Let_def draw_rect_def cairo_fill_def set_source_rgb_def
        cairo_rectangle_def cairo_translate_def cairo_rotate_def on_surface_def)

text \<open>
  C9.  Drawing the rectangle \<open>{x: 0, y: 0, length: 0, height: 0}\<close> on a context whose path
  is empty leaves every point of the surface as it was, and a frame rendered with both
  auxiliary rectangles of zero size (the defaults of \<^verbatim>\<open>make_scene\<close>) is the frame rendered
  with no auxiliary rectangle drawn.
\<close>

theorem zero_rect_leaves_image:
  "surface (draw_rect zero_rect color (cairo_fill ctx)) = surface (cairo_fill ctx)
   \<and> make_frame (a\<lparr>sc_rect1 := zero_rect, sc_rect2 := zero_rect\<rparr>) theta
       = make_frame_no_aux (a\<lparr>sc_rect1 := zero_rect, sc_rect2 := zero_rect\<rparr>) theta
   \<and> make_frame default_scene theta = make_frame_no_aux default_scene theta"
proof -
  have 1: "surface (draw_rect zero_rect color (cairo_fill ctx)) = surface (cairo_fill ctx)"
    by (simp add: draw_rect_zero)
  have 2: "make_frame b theta = make_frame_no_aux b theta"
    if "sc_rect1 b = zero_rect" "sc_rect2 b = zero_rect" for b
  proof -
    let ?bg = "draw_background b"
    let ?g = "\<lambda>p::point. (fst color_grey, fst (snd color_grey), snd (snd color_grey), 1::real)"
    have a: "draw_rect zero_rect color_grey ?bg = ?bg\<lparr>source := ?g\<rparr>"
      by (rule draw_rect_zero) simp
    have b: "draw_rect zero_rect color_grey (?bg\<lparr>source := ?g\<rparr>) = ?bg\<lparr>source := ?g\<rparr>"
      by (subst draw_rect_zero) simp_all
    show ?thesis
      unfolding make_frame_def make_frame_no_aux_def that a b draw_motion_object_source ..
  qed
  from 1 2[of "a\<lparr>sc_rect1 := zero_rect, sc_rect2 := zero_rect\<rparr>"] 2[of default_scene]
  show ?thesis by (simp add: default_scene_def)
qed

end
